theory Spec2Isabelle
  imports Complex_Main
begin

section \<open>The account store\<close>

text \<open>
  The server keeps every account in a Redis hash stored under the key
  \<^verbatim>\<open>account:\<close> followed by the account's identifier. The server reads
  and writes two fields of such a hash, \<^verbatim>\<open>account_type\<close> and
  \<^verbatim>\<open>balance\<close>; a field that is absent is \<open>None\<close>.
  Balances are Python floats in the source. They are modelled by the real
  numbers: the arithmetic of the handlers is exact here, and the rounding,
  the infinities and the NaN of IEEE doubles are not values of these
  sections; \<open>Deposit_float\<close> below has the infinities and the NaN. A
  balance written to a hash and read back is the same number.
\<close>

record redis_hash =
  f_account_type :: "string option"
  f_balance :: "real option"

type_synonym redis = "string \<rightharpoonup> redis_hash"

definition empty_hash :: redis_hash where
  "empty_hash = \<lparr>f_account_type = None, f_balance = None\<rparr>"

definition account_key :: "string \<Rightarrow> string" where
  "account_key account_id = ''account:'' @ account_id"

definition redis_exists :: "redis \<Rightarrow> string \<Rightarrow> bool" where
  "redis_exists r key = (r key \<noteq> None)"

text \<open>\<^verbatim>\<open>hgetall\<close> of a key that is not there returns the empty dictionary.\<close>

definition hgetall :: "redis \<Rightarrow> string \<Rightarrow> redis_hash" where
  "hgetall r key = (case r key of None \<Rightarrow> empty_hash | Some h \<Rightarrow> h)"

text \<open>
  \<^verbatim>\<open>hmset\<close> with both fields and \<^verbatim>\<open>hset\<close> of the balance field set the
  given fields of the hash under the key, creating the hash when the key is
  not there, and leave every other field and every other key as they are.
\<close>

definition hmset :: "redis \<Rightarrow> string \<Rightarrow> string \<Rightarrow> real \<Rightarrow> redis" where
  "hmset r key t b = r(key \<mapsto> (hgetall r key)\<lparr>f_account_type := Some t, f_balance := Some b\<rparr>)"

definition hset_balance :: "redis \<Rightarrow> string \<Rightarrow> real \<Rightarrow> redis" where
  "hset_balance r key b = r(key \<mapsto> (hgetall r key)\<lparr>f_balance := Some b\<rparr>)"

section \<open>Messages, status codes and the servicer's state\<close>

datatype StatusCode = OK | INVALID_ARGUMENT | NOT_FOUND | ALREADY_EXISTS | FAILED_PRECONDITION

record ServicerContext =
  code :: StatusCode
  details :: string

definition set_code :: "StatusCode \<Rightarrow> ServicerContext \<Rightarrow> ServicerContext" where
  "set_code c context = context\<lparr>code := c\<rparr>"

definition set_details :: "string \<Rightarrow> ServicerContext \<Rightarrow> ServicerContext" where
  "set_details d context = context\<lparr>details := d\<rparr>"

text \<open>
  A response message is an f-string. Its pieces are kept apart: a literal
  piece, and a float printed with a fixed number of decimals
  (\<^verbatim>\<open>{x:.2f}\<close> is \<open>Fixed 2 x\<close>).
\<close>

datatype piece = Lit string | Fixed nat real

type_synonym fstring = "piece list"

record AccountRequest =
  ar_account_id :: string
  ar_account_type :: string

record DepositRequest =
  dr_account_id :: string
  dr_amount :: real

record WithdrawRequest =
  wr_account_id :: string
  wr_amount :: real

record InterestRequest =
  ir_account_id :: string
  ir_annual_interest_rate :: real

record AccountResponse =
  a_account_id :: string
  a_message :: fstring

record BalanceResponse =
  b_account_id :: string
  b_balance :: real
  b_message :: fstring

record TransactionResponse =
  t_account_id :: string
  t_message :: fstring
  t_balance :: real

text \<open>A protobuf message built with no argument has the default of every field.\<close>

definition AccountResponse0 :: AccountResponse where
  "AccountResponse0 = \<lparr>a_account_id = [], a_message = []\<rparr>"

definition BalanceResponse0 :: BalanceResponse where
  "BalanceResponse0 = \<lparr>b_account_id = [], b_balance = 0, b_message = []\<rparr>"

definition TransactionResponse0 :: TransactionResponse where
  "TransactionResponse0 = \<lparr>t_account_id = [], t_message = [], t_balance = 0\<rparr>"

text \<open>
  The dictionary \<^verbatim>\<open>get_account_data\<close> returns. Reading a field that the hash
  does not have raises \<^verbatim>\<open>KeyError\<close>.
\<close>

record account_data =
  d_account_id :: string
  d_account_type :: string
  d_balance :: real

datatype py_exception = KeyError string

text \<open>
  A handler either returns a response, with the context as it has set it, or
  raises.
\<close>

datatype 'r outcome = Return 'r ServicerContext | Raise py_exception

text \<open>
  The servicer's state: the Redis store and the dictionary of account locks.
  The handlers below run one after the other, so every lock is free when a
  handler starts, and a lock taken by \<^verbatim>\<open>with account_lock\<close> is released on
  every way out of the block. What remains of the dictionary is the set of
  its keys.
\<close>

record BankServiceServicer =
  redis_client :: redis
  account_locks :: "string set"

text \<open>\<^verbatim>\<open>__init__\<close> connects to the Redis server and starts with no account lock.\<close>

definition init :: "redis \<Rightarrow> BankServiceServicer" where
  "init r = \<lparr>redis_client = r, account_locks = {}\<rparr>"

definition get_account_lock :: "BankServiceServicer \<Rightarrow> string \<Rightarrow> BankServiceServicer" where
  "get_account_lock self account_id =
     (if account_id \<notin> account_locks self
      then self\<lparr>account_locks := insert account_id (account_locks self)\<rparr>
      else self)"

definition get_account_data :: "redis \<Rightarrow> string \<Rightarrow> py_exception + account_data option" where
  "get_account_data r account_id =
     (let account_data = hgetall r (account_key account_id) in
      if account_data = empty_hash then Inr None
      else case f_account_type account_data of
             None \<Rightarrow> Inl (KeyError ''account_type'')
           | Some t \<Rightarrow>
               (case f_balance account_data of
                  None \<Rightarrow> Inl (KeyError ''balance'')
                | Some b \<Rightarrow>
                    Inr (Some \<lparr>d_account_id = account_id, d_account_type = t, d_balance = b\<rparr>)))"

section \<open>The handlers\<close>

definition CreateAccount ::
  "BankServiceServicer \<Rightarrow> AccountRequest \<Rightarrow> ServicerContext
     \<Rightarrow> AccountResponse outcome \<times> BankServiceServicer" where
  "CreateAccount self request context =
     (let account_id = ar_account_id request;
          account_type = ar_account_type request in
      if account_type \<notin> set [''savings'', ''checking''] then
        (Return AccountResponse0
           (set_details
              (''Account type must be '' @ [CHR 0x27] @ ''savings'' @ [CHR 0x27] @ '' or ''
                 @ [CHR 0x27] @ ''checking'' @ [CHR 0x27])
              (set_code INVALID_ARGUMENT context)), self)
      else if redis_exists (redis_client self) (account_key account_id) then
        (Return AccountResponse0
           (set_details ''Account already exists'' (set_code ALREADY_EXISTS context)), self)
      else
        (Return \<lparr>a_account_id = account_id,
                 a_message = [Lit ''Account '', Lit account_id, Lit '' created successfully'']\<rparr>
           context,
         self\<lparr>redis_client := hmset (redis_client self) (account_key account_id) account_type 0\<rparr>))"

definition GetBalance ::
  "BankServiceServicer \<Rightarrow> AccountRequest \<Rightarrow> ServicerContext
     \<Rightarrow> BalanceResponse outcome \<times> BankServiceServicer" where
  "GetBalance self request context =
     (case get_account_data (redis_client self) (ar_account_id request) of
        Inl e \<Rightarrow> (Raise e, self)
      | Inr None \<Rightarrow>
          (Return BalanceResponse0
             (set_details ''Account not found. Please check the account ID.''
                (set_code NOT_FOUND context)), self)
      | Inr (Some account_data) \<Rightarrow>
          (Return \<lparr>b_account_id = ar_account_id request,
                   b_balance = d_balance account_data,
                   b_message = [Lit ''Balance retrieved successfully'']\<rparr>
             context, self))"

definition Deposit ::
  "BankServiceServicer \<Rightarrow> DepositRequest \<Rightarrow> ServicerContext
     \<Rightarrow> TransactionResponse outcome \<times> BankServiceServicer" where
  "Deposit self request context =
     (if dr_amount request \<le> 0 then
        (Return TransactionResponse0
           (set_details ''Transaction amount must be positive.''
              (set_code INVALID_ARGUMENT context)), self)
      else
        let self = get_account_lock self (dr_account_id request) in
        case get_account_data (redis_client self) (dr_account_id request) of
          Inl e \<Rightarrow> (Raise e, self)
        | Inr None \<Rightarrow>
            (Return TransactionResponse0
               (set_details ''Account not found. Please check the account ID.''
                  (set_code NOT_FOUND context)), self)
        | Inr (Some account_data) \<Rightarrow>
            let new_balance = d_balance account_data + dr_amount request in
            (Return \<lparr>t_account_id = dr_account_id request,
                     t_message = [Lit ''Successfully deposited $'', Fixed 2 (dr_amount request)],
                     t_balance = new_balance\<rparr>
               context,
             self\<lparr>redis_client :=
                    hset_balance (redis_client self) (account_key (dr_account_id request))
                      new_balance\<rparr>))"

definition Withdraw ::
  "BankServiceServicer \<Rightarrow> WithdrawRequest \<Rightarrow> ServicerContext
     \<Rightarrow> TransactionResponse outcome \<times> BankServiceServicer" where
  "Withdraw self request context =
     (if wr_amount request \<le> 0 then
        (Return TransactionResponse0
           (set_details ''Transaction amount must be positive.''
              (set_code INVALID_ARGUMENT context)), self)
      else
        let self = get_account_lock self (wr_account_id request) in
        case get_account_data (redis_client self) (wr_account_id request) of
          Inl e \<Rightarrow> (Raise e, self)
        | Inr None \<Rightarrow>
            (Return TransactionResponse0
               (set_details ''Account not found. Please check the account ID.''
                  (set_code NOT_FOUND context)), self)
        | Inr (Some account_data) \<Rightarrow>
            if d_balance account_data < wr_amount request then
              (Return TransactionResponse0
                 (set_details ''Insufficient funds for the requested withdrawal.''
                    (set_code FAILED_PRECONDITION context)), self)
            else
              let new_balance = d_balance account_data - wr_amount request in
              (Return \<lparr>t_account_id = wr_account_id request,
                       t_message = [Lit ''Successfully withdrew $'', Fixed 2 (wr_amount request)],
                       t_balance = new_balance\<rparr>
                 context,
               self\<lparr>redis_client :=
                      hset_balance (redis_client self) (account_key (wr_account_id request))
                        new_balance\<rparr>))"

definition CalculateInterest ::
  "BankServiceServicer \<Rightarrow> InterestRequest \<Rightarrow> ServicerContext
     \<Rightarrow> TransactionResponse outcome \<times> BankServiceServicer" where
  "CalculateInterest self request context =
     (if ir_annual_interest_rate request \<le> 0 then
        (Return TransactionResponse0
           (set_details ''Annual interest rate must be a positive value.''
              (set_code INVALID_ARGUMENT context)), self)
      else
        let self = get_account_lock self (ir_account_id request) in
        case get_account_data (redis_client self) (ir_account_id request) of
          Inl e \<Rightarrow> (Raise e, self)
        | Inr None \<Rightarrow>
            (Return TransactionResponse0
               (set_details ''Account not found. Please check the account ID.''
                  (set_code NOT_FOUND context)), self)
        | Inr (Some account_data) \<Rightarrow>
            let rate = ir_annual_interest_rate request;
                interest_amount = d_balance account_data * (rate / 100);
                new_balance = d_balance account_data + interest_amount in
            (Return \<lparr>t_account_id = ir_account_id request,
                     t_message =
                       [Lit ''Applied daily interest rate of '', Fixed 4 rate,
                        Lit ''% to bank amount of $'', Fixed 2 (d_balance account_data),
                        Lit '' for interest amount of $'', Fixed 2 interest_amount],
                     t_balance = new_balance\<rparr>
               context,
             self\<lparr>redis_client :=
                    hset_balance (redis_client self) (account_key (ir_account_id request))
                      new_balance\<rparr>))"

section \<open>Serving requests\<close>

text \<open>
  \<^verbatim>\<open>serve\<close> registers one servicer with the gRPC server, which routes every
  request to the handler of its method and hands it a context of its own,
  with no status code set. \<open>invoke\<close> is one such call; \<open>serve\<close> is a run
  of the server on requests that arrive one after the other.
\<close>

datatype rpc =
    CreateAccountRpc AccountRequest
  | GetBalanceRpc AccountRequest
  | DepositRpc DepositRequest
  | WithdrawRpc WithdrawRequest
  | CalculateInterestRpc InterestRequest

datatype response =
    AccountResp AccountResponse
  | BalanceResp BalanceResponse
  | TransactionResp TransactionResponse

definition new_context :: ServicerContext where
  "new_context = \<lparr>code = OK, details = []\<rparr>"

fun invoke :: "BankServiceServicer \<Rightarrow> rpc \<Rightarrow> response outcome \<times> BankServiceServicer" where
  "invoke self (CreateAccountRpc request) =
     (case CreateAccount self request new_context of
        (out, self') \<Rightarrow> (map_outcome AccountResp out, self'))"
| "invoke self (GetBalanceRpc request) =
     (case GetBalance self request new_context of
        (out, self') \<Rightarrow> (map_outcome BalanceResp out, self'))"
| "invoke self (DepositRpc request) =
     (case Deposit self request new_context of
        (out, self') \<Rightarrow> (map_outcome TransactionResp out, self'))"
| "invoke self (WithdrawRpc request) =
     (case Withdraw self request new_context of
        (out, self') \<Rightarrow> (map_outcome TransactionResp out, self'))"
| "invoke self (CalculateInterestRpc request) =
     (case CalculateInterest self request new_context of
        (out, self') \<Rightarrow> (map_outcome TransactionResp out, self'))"

fun serve :: "BankServiceServicer \<Rightarrow> rpc list \<Rightarrow> BankServiceServicer" where
  "serve self [] = self"
| "serve self (c # cs) = serve (snd (invoke self c)) cs"

text \<open>The status code a call ends with; a call that raises has none.\<close>

fun status :: "'r outcome \<Rightarrow> StatusCode option" where
  "status (Return r context) = Some (code context)"
| "status (Raise e) = None"

text \<open>The account a request names.\<close>

fun rpc_account_id :: "rpc \<Rightarrow> string" where
  "rpc_account_id (CreateAccountRpc request) = ar_account_id request"
| "rpc_account_id (GetBalanceRpc request) = ar_account_id request"
| "rpc_account_id (DepositRpc request) = dr_account_id request"
| "rpc_account_id (WithdrawRpc request) = wr_account_id request"
| "rpc_account_id (CalculateInterestRpc request) = ir_account_id request"

section \<open>An example state\<close>

text \<open>A servicer whose store holds the one savings account \<open>A1\<close>, with the given balance.\<close>

definition one_account :: "real \<Rightarrow> BankServiceServicer" where
  "one_account b =
     init [account_key ''A1'' \<mapsto> \<lparr>f_account_type = Some ''savings'', f_balance = Some b\<rparr>]"


section \<open>Deposits that run at the same time\<close>

text \<open>
  The server hands every request to a worker thread of a pool, and the
  workers run the handlers of the one servicer at the same time. The state
  they share is the Redis store, the lock \<^verbatim>\<open>lock_dict_lock\<close>, the dictionary
  \<^verbatim>\<open>account_locks\<close> and the \<^verbatim>\<open>threading.Lock\<close> objects that the dictionary
  refers to. A lock object is a flag, true while the lock is held; the
  objects are kept in a list and named by their position in it, and a new
  object goes to the end of the list.

  A step of a worker is atomic. Taking and releasing a lock and one Redis
  command are; what a worker does between two of them touches its own
  variables only. The pool has ten threads: a call that waits for one of
  them has not made its first step, so the runs of the pool are among the
  interleavings below.
\<close>

record shared =
  s_redis_client :: redis
  s_lock_dict_lock :: bool
  s_account_locks :: "string \<rightharpoonup> nat"
  s_locks :: "bool list"

text \<open>
  Where a worker stands in \<^verbatim>\<open>Deposit\<close>, with the local variables it has
  set. Every step of a worker reads or writes the shared state at most once:

  \<^item> \<open>Called\<close>: line 74, the check of the amount;
  \<^item> \<open>Dict_acquire\<close>: line 18, entering \<^verbatim>\<open>with self.lock_dict_lock\<close>;
  \<^item> \<open>Dict_test\<close>: line 19, the test \<^verbatim>\<open>account_id not in self.account_locks\<close>;
  \<^item> \<open>Dict_insert\<close>: line 20, a new lock is stored in the dictionary;
  \<^item> \<open>Dict_lookup\<close>: line 21, the dictionary is read;
  \<^item> \<open>Dict_release l\<close>: leaving the \<^verbatim>\<open>with\<close> block of line 18, returning the lock \<open>l\<close>;
  \<^item> \<open>Lock_acquire l\<close>: line 80, entering \<^verbatim>\<open>with account_lock\<close>;
  \<^item> \<open>Read_account l\<close>: lines 81 to 87, \<^verbatim>\<open>get_account_data\<close> and what is
    computed from its result;
  \<^item> \<open>Write_balance l d\<close>: line 88, \<^verbatim>\<open>hset\<close> of the new balance, computed
    from the account data \<open>d\<close> that was read;
  \<^item> \<open>Lock_release l out\<close>: leaving the \<^verbatim>\<open>with\<close> block of line 80 with the
    outcome \<open>out\<close>;
  \<^item> \<open>Finished out\<close>: the handler has returned or raised.
\<close>

datatype pc =
    Called
  | Dict_acquire
  | Dict_test
  | Dict_insert
  | Dict_lookup
  | Dict_release nat
  | Lock_acquire nat
  | Read_account nat
  | Write_balance nat account_data
  | Lock_release nat "TransactionResponse outcome"
  | Finished "TransactionResponse outcome"

text \<open>
  One step of a worker that serves the request \<open>q\<close>: the place it goes to and
  the shared state it leaves, or \<open>None\<close> when it cannot move: it waits for a
  lock that is held, or it has finished.
\<close>

fun deposit_step :: "shared \<Rightarrow> DepositRequest \<Rightarrow> pc \<Rightarrow> (pc \<times> shared) option" where
  "deposit_step s q Called =
     (if dr_amount q \<le> 0 then
        Some (Finished (Return TransactionResponse0
                (set_details ''Transaction amount must be positive.''
                   (set_code INVALID_ARGUMENT new_context))), s)
      else Some (Dict_acquire, s))"
| "deposit_step s q Dict_acquire =
     (if s_lock_dict_lock s then None
      else Some (Dict_test, s\<lparr>s_lock_dict_lock := True\<rparr>))"
| "deposit_step s q Dict_test =
     (if dr_account_id q \<notin> dom (s_account_locks s) then Some (Dict_insert, s)
      else Some (Dict_lookup, s))"
| "deposit_step s q Dict_insert =
     Some (Dict_lookup,
           s\<lparr>s_account_locks := (s_account_locks s)(dr_account_id q \<mapsto> length (s_locks s)),
             s_locks := s_locks s @ [False]\<rparr>)"
| "deposit_step s q Dict_lookup =
     (case s_account_locks s (dr_account_id q) of
        None \<Rightarrow> Some (Finished (Raise (KeyError (dr_account_id q))), s\<lparr>s_lock_dict_lock := False\<rparr>)
      | Some l \<Rightarrow> Some (Dict_release l, s))"
| "deposit_step s q (Dict_release l) = Some (Lock_acquire l, s\<lparr>s_lock_dict_lock := False\<rparr>)"
| "deposit_step s q (Lock_acquire l) =
     (if l < length (s_locks s) \<and> \<not> s_locks s ! l
      then Some (Read_account l, s\<lparr>s_locks := (s_locks s)[l := True]\<rparr>)
      else None)"
| "deposit_step s q (Read_account l) =
     (case get_account_data (s_redis_client s) (dr_account_id q) of
        Inl e \<Rightarrow> Some (Lock_release l (Raise e), s)
      | Inr None \<Rightarrow>
          Some (Lock_release l
                  (Return TransactionResponse0
                     (set_details ''Account not found. Please check the account ID.''
                        (set_code NOT_FOUND new_context))), s)
      | Inr (Some account_data) \<Rightarrow> Some (Write_balance l account_data, s))"
| "deposit_step s q (Write_balance l account_data) =
     (let new_balance = d_balance account_data + dr_amount q in
      Some (Lock_release l
              (Return \<lparr>t_account_id = dr_account_id q,
                       t_message = [Lit ''Successfully deposited $'', Fixed 2 (dr_amount q)],
                       t_balance = new_balance\<rparr>
                 new_context),
            s\<lparr>s_redis_client :=
                hset_balance (s_redis_client s) (account_key (dr_account_id q)) new_balance\<rparr>))"
| "deposit_step s q (Lock_release l out) = Some (Finished out, s\<lparr>s_locks := (s_locks s)[l := False]\<rparr>)"
| "deposit_step s q (Finished out) = None"

text \<open>The workers, each with its request, and the state they share.\<close>

record worker =
  w_request :: DepositRequest
  w_pc :: pc

record system =
  shared :: shared
  workers :: "worker list"

definition step :: "system \<Rightarrow> nat \<Rightarrow> system option" where
  "step w i =
     (if i < length (workers w) then
        case deposit_step (shared w) (w_request (workers w ! i)) (w_pc (workers w ! i)) of
          None \<Rightarrow> None
        | Some (p, s) \<Rightarrow> Some \<lparr>shared = s, workers = (workers w)[i := (workers w ! i)\<lparr>w_pc := p\<rparr>]\<rparr>
      else None)"

text \<open>
  An interleaving is the list of the workers in the order in which they
  move. It does not run when it asks a worker to move that cannot.
\<close>

fun exec :: "system \<Rightarrow> nat list \<Rightarrow> system option" where
  "exec w [] = Some w"
| "exec w (i # sched) = (case step w i of None \<Rightarrow> None | Some w' \<Rightarrow> exec w' sched)"

fun finished :: "pc \<Rightarrow> bool" where
  "finished (Finished out) = True"
| "finished p = False"

definition all_finished :: "system \<Rightarrow> bool" where
  "all_finished w = list_all (\<lambda>t. finished (w_pc t)) (workers w)"

text \<open>
  The calls arrive at a servicer on which no handler runs: no lock is held,
  and every lock of the dictionary is an object of the list.
\<close>

definition idle :: "shared \<Rightarrow> bool" where
  "idle s = (\<not> s_lock_dict_lock s \<and> list_all (\<lambda>b. \<not> b) (s_locks s)
             \<and> (\<forall>l \<in> ran (s_account_locks s). l < length (s_locks s)))"

definition spawn :: "shared \<Rightarrow> DepositRequest list \<Rightarrow> system" where
  "spawn s qs = \<lparr>shared = s, workers = map (\<lambda>q. \<lparr>w_request = q, w_pc = Called\<rparr>) qs\<rparr>"

text \<open>The shared state of a servicer that has just been built on the store \<open>r\<close>.\<close>

definition init_shared :: "redis \<Rightarrow> shared" where
  "init_shared r = \<lparr>s_redis_client = r, s_lock_dict_lock = False, s_account_locks = Map.empty,
                    s_locks = []\<rparr>"

section \<open>What holds of the workers at every moment\<close>

text \<open>Whether a worker is inside \<^verbatim>\<open>with self.lock_dict_lock\<close>.\<close>

fun dict_cs :: "pc \<Rightarrow> bool" where
  "dict_cs Dict_test = True"
| "dict_cs Dict_insert = True"
| "dict_cs Dict_lookup = True"
| "dict_cs (Dict_release l) = True"
| "dict_cs p = False"

text \<open>Whether a worker is inside \<^verbatim>\<open>with account_lock\<close>, for the lock \<open>k\<close>.\<close>

fun holds :: "pc \<Rightarrow> nat \<Rightarrow> bool" where
  "holds (Read_account l) k = (k = l)"
| "holds (Write_balance l d) k = (k = l)"
| "holds (Lock_release l out) k = (k = l)"
| "holds p k = False"

text \<open>The lock a worker has in its variable \<^verbatim>\<open>account_lock\<close>.\<close>

fun refers :: "pc \<Rightarrow> nat option" where
  "refers (Dict_release l) = Some l"
| "refers (Lock_acquire l) = Some l"
| "refers (Read_account l) = Some l"
| "refers (Write_balance l d) = Some l"
| "refers (Lock_release l out) = Some l"
| "refers p = None"

text \<open>Whether a worker has written its new balance to the store.\<close>

fun written :: "pc \<Rightarrow> bool" where
  "written (Lock_release l (Return r c)) = (code c = OK)"
| "written (Finished (Return r c)) = (code c = OK)"
| "written p = False"

text \<open>What a worker has added so far to the balance of the account \<open>a\<close>.\<close>

definition deposited :: "string \<Rightarrow> worker \<Rightarrow> real" where
  "deposited a t =
     (if dr_account_id (w_request t) = a \<and> written (w_pc t) then dr_amount (w_request t) else 0)"

definition dict_count :: "worker list \<Rightarrow> nat" where
  "dict_count ws = sum_list (map (\<lambda>t. of_bool (dict_cs (w_pc t))) ws)"

definition hold_count :: "nat \<Rightarrow> worker list \<Rightarrow> nat" where
  "hold_count l ws = sum_list (map (\<lambda>t. of_bool (holds (w_pc t) l)) ws)"

definition added :: "string \<Rightarrow> worker list \<Rightarrow> real" where
  "added a ws = sum_list (map (deposited a) ws)"

text \<open>
  The locks do their work: the number of workers inside a \<^verbatim>\<open>with\<close> block
  is one when its lock is held and zero when it is free; the lock a worker
  has in its variable is the one the dictionary has for its account; and an
  entry of the dictionary is never replaced.
\<close>

definition locks_ok :: "system \<Rightarrow> bool" where
  "locks_ok w =
     (let s = shared w; ws = workers w in
      dict_count ws = of_bool (s_lock_dict_lock s)
      \<and> (\<forall>l \<in> ran (s_account_locks s). l < length (s_locks s))
      \<and> (\<forall>t \<in> set ws. \<forall>l. refers (w_pc t) = Some l \<longrightarrow>
            s_account_locks s (dr_account_id (w_request t)) = Some l)
      \<and> (\<forall>t \<in> set ws.
            (w_pc t = Dict_insert \<longrightarrow> s_account_locks s (dr_account_id (w_request t)) = None)
          \<and> (w_pc t = Dict_lookup \<longrightarrow> s_account_locks s (dr_account_id (w_request t)) \<noteq> None))
      \<and> (\<forall>l < length (s_locks s). hold_count l ws = of_bool (s_locks s ! l)))"

text \<open>
  The balance of the account \<open>a\<close>, which started at \<open>b0\<close>, is \<open>b0\<close> plus what
  the workers have added so far, and a worker about to write has read the
  balance that is still there.
\<close>

definition balance_ok :: "string \<Rightarrow> string \<Rightarrow> real \<Rightarrow> system \<Rightarrow> bool" where
  "balance_ok a ty b0 w =
     (let s = shared w; ws = workers w in
      s_redis_client s (account_key a)
        = Some \<lparr>f_account_type = Some ty, f_balance = Some (b0 + added a ws)\<rparr>
      \<and> (\<forall>t \<in> set ws. \<forall>l d. w_pc t = Write_balance l d \<and> dr_account_id (w_request t) = a \<longrightarrow>
            d_balance d = b0 + added a ws))"

text \<open>The steps a worker still has to make, at most.\<close>

fun remaining :: "pc \<Rightarrow> nat" where
  "remaining Called = 10"
| "remaining Dict_acquire = 9"
| "remaining Dict_test = 8"
| "remaining Dict_insert = 7"
| "remaining Dict_lookup = 6"
| "remaining (Dict_release l) = 5"
| "remaining (Lock_acquire l) = 4"
| "remaining (Read_account l) = 3"
| "remaining (Write_balance l d) = 2"
| "remaining (Lock_release l out) = 1"
| "remaining (Finished out) = 0"

definition work_left :: "system \<Rightarrow> nat" where
  "work_left w = sum_list (map (\<lambda>t. remaining (w_pc t)) (workers w))"

text \<open>Whether a worker has its outcome: it is leaving the lock, or it has finished.\<close>

fun leaving :: "pc \<Rightarrow> bool" where
  "leaving (Lock_release l out) = True"
| "leaving (Finished out) = True"
| "leaving p = False"

text \<open>Whether a worker is past the check of the amount and has not finished.\<close>

fun checked :: "pc \<Rightarrow> bool" where
  "checked Called = False"
| "checked (Finished out) = False"
| "checked p = True"

text \<open>
  A worker that deposits an amount above zero to the account \<open>a\<close> and has
  its outcome has written its new balance: it has not been turned away. And
  only an amount above zero gets past the check and is written.
\<close>

definition served :: "string \<Rightarrow> system \<Rightarrow> bool" where
  "served a w =
     (\<forall>t \<in> set (workers w).
        (dr_account_id (w_request t) = a \<and> 0 < dr_amount (w_request t) \<and> leaving (w_pc t)
           \<longrightarrow> written (w_pc t))
      \<and> (checked (w_pc t) \<or> written (w_pc t) \<longrightarrow> 0 < dr_amount (w_request t)))"

text \<open>What a request adds to the balance of the account \<open>a\<close> when it is served.\<close>

definition credit :: "string \<Rightarrow> DepositRequest \<Rightarrow> real" where
  "credit a q = (if dr_account_id q = a \<and> 0 < dr_amount q then dr_amount q else 0)"

text \<open>All of this together.\<close>

definition sound :: "string \<Rightarrow> string \<Rightarrow> real \<Rightarrow> system \<Rightarrow> bool" where
  "sound a ty b0 w = (locks_ok w \<and> balance_ok a ty b0 w \<and> served a w)"

text \<open>
  The shared state as the handlers of the first sections see it, when no
  handler runs: the store, and the identifiers that have a lock.
\<close>

definition servicer_of :: "shared \<Rightarrow> BankServiceServicer" where
  "servicer_of s = \<lparr>redis_client = s_redis_client s, account_locks = dom (s_account_locks s)\<rparr>"

section \<open>Deposit on Python's floats\<close>

text \<open>
  The handlers above compute with real numbers. A Python float is an IEEE 754
  double, which has three more values: \<^verbatim>\<open>inf\<close>, \<^verbatim>\<open>-inf\<close> and \<^verbatim>\<open>nan\<close>. A
  request can carry them, and Redis keeps them: \<^verbatim>\<open>repr\<close> writes them as
  \<^verbatim>\<open>inf\<close>, \<^verbatim>\<open>-inf\<close> and \<^verbatim>\<open>nan\<close>, and \<^verbatim>\<open>float\<close> reads these back. Here
  \<^verbatim>\<open>Deposit\<close> is written once more, on floats that have the three values.
  A finite float is still a real number, so the rounding and the overflow of
  finite sums are not modelled; comparison and addition treat the three other
  values as IEEE 754 does.
\<close>

datatype pyfloat = Finite real | PosInf | NegInf | NaN

text \<open>\<^verbatim>\<open>x <= y\<close>: false as soon as one side is \<^verbatim>\<open>nan\<close>.\<close>

fun float_le :: "pyfloat \<Rightarrow> pyfloat \<Rightarrow> bool" where
  "float_le NaN y = False"
| "float_le x NaN = False"
| "float_le NegInf y = True"
| "float_le x PosInf = True"
| "float_le (Finite x) (Finite y) = (x \<le> y)"
| "float_le x y = False"

text \<open>\<^verbatim>\<open>x + y\<close>: \<^verbatim>\<open>nan\<close> as soon as one side is, and for \<^verbatim>\<open>inf + -inf\<close>.\<close>

fun float_add :: "pyfloat \<Rightarrow> pyfloat \<Rightarrow> pyfloat" where
  "float_add NaN y = NaN"
| "float_add x NaN = NaN"
| "float_add PosInf NegInf = NaN"
| "float_add NegInf PosInf = NaN"
| "float_add PosInf y = PosInf"
| "float_add x PosInf = PosInf"
| "float_add NegInf y = NegInf"
| "float_add x NegInf = NegInf"
| "float_add (Finite x) (Finite y) = Finite (x + y)"

text \<open>The store, the messages and the servicer, with float balances and amounts.\<close>

record float_hash =
  ff_account_type :: "string option"
  ff_balance :: "pyfloat option"

type_synonym float_redis = "string \<rightharpoonup> float_hash"

definition float_empty_hash :: float_hash where
  "float_empty_hash = \<lparr>ff_account_type = None, ff_balance = None\<rparr>"

definition float_hgetall :: "float_redis \<Rightarrow> string \<Rightarrow> float_hash" where
  "float_hgetall r key = (case r key of None \<Rightarrow> float_empty_hash | Some h \<Rightarrow> h)"

definition float_hset_balance :: "float_redis \<Rightarrow> string \<Rightarrow> pyfloat \<Rightarrow> float_redis" where
  "float_hset_balance r key b = r(key \<mapsto> (float_hgetall r key)\<lparr>ff_balance := Some b\<rparr>)"

record float_account_data =
  fd_account_id :: string
  fd_account_type :: string
  fd_balance :: pyfloat

definition float_get_account_data ::
  "float_redis \<Rightarrow> string \<Rightarrow> py_exception + float_account_data option" where
  "float_get_account_data r account_id =
     (let account_data = float_hgetall r (account_key account_id) in
      if account_data = float_empty_hash then Inr None
      else case ff_account_type account_data of
             None \<Rightarrow> Inl (KeyError ''account_type'')
           | Some t \<Rightarrow>
               (case ff_balance account_data of
                  None \<Rightarrow> Inl (KeyError ''balance'')
                | Some b \<Rightarrow>
                    Inr (Some \<lparr>fd_account_id = account_id, fd_account_type = t, fd_balance = b\<rparr>)))"

datatype float_piece = Float_Lit string | Float_Fixed nat pyfloat

record FloatDepositRequest =
  fdr_account_id :: string
  fdr_amount :: pyfloat

record FloatTransactionResponse =
  ft_account_id :: string
  ft_message :: "float_piece list"
  ft_balance :: pyfloat

definition FloatTransactionResponse0 :: FloatTransactionResponse where
  "FloatTransactionResponse0 = \<lparr>ft_account_id = [], ft_message = [], ft_balance = Finite 0\<rparr>"

record FloatServicer =
  float_redis_client :: float_redis
  float_account_locks :: "string set"

definition float_get_account_lock :: "FloatServicer \<Rightarrow> string \<Rightarrow> FloatServicer" where
  "float_get_account_lock self account_id =
     (if account_id \<notin> float_account_locks self
      then self\<lparr>float_account_locks := insert account_id (float_account_locks self)\<rparr>
      else self)"

definition Deposit_float ::
  "FloatServicer \<Rightarrow> FloatDepositRequest \<Rightarrow> ServicerContext
     \<Rightarrow> FloatTransactionResponse outcome \<times> FloatServicer" where
  "Deposit_float self request context =
     (if float_le (fdr_amount request) (Finite 0) then
        (Return FloatTransactionResponse0
           (set_details ''Transaction amount must be positive.''
              (set_code INVALID_ARGUMENT context)), self)
      else
        let self = float_get_account_lock self (fdr_account_id request) in
        case float_get_account_data (float_redis_client self) (fdr_account_id request) of
          Inl e \<Rightarrow> (Raise e, self)
        | Inr None \<Rightarrow>
            (Return FloatTransactionResponse0
               (set_details ''Account not found. Please check the account ID.''
                  (set_code NOT_FOUND context)), self)
        | Inr (Some account_data) \<Rightarrow>
            let new_balance = float_add (fd_balance account_data) (fdr_amount request) in
            (Return \<lparr>ft_account_id = fdr_account_id request,
                     ft_message = [Float_Lit ''Successfully deposited $'',
                                   Float_Fixed 2 (fdr_amount request)],
                     ft_balance = new_balance\<rparr>
               context,
             self\<lparr>float_redis_client :=
                    float_hset_balance (float_redis_client self)
                      (account_key (fdr_account_id request)) new_balance\<rparr>))"

section \<open>Facts about the store\<close>

lemma account_key_eq [simp]: "account_key a = account_key b \<longleftrightarrow> a = b"
  by (simp add: account_key_def)

lemma hset_balance_same:
  "r key = Some h \<Longrightarrow> hset_balance r key v key = Some (h\<lparr>f_balance := Some v\<rparr>)"
  by (simp add: hset_balance_def hgetall_def)

lemma hset_balance_other:
  "key' \<noteq> key \<Longrightarrow> hset_balance r key v key' = r key'"
  by (simp add: hset_balance_def)

lemma hmset_same:
  "r key = None \<Longrightarrow> hmset r key t v key = Some \<lparr>f_account_type = Some t, f_balance = Some v\<rparr>"
  by (simp add: hmset_def hgetall_def empty_hash_def)

lemma hmset_other:
  "key' \<noteq> key \<Longrightarrow> hmset r key t v key' = r key'"
  by (simp add: hmset_def)

lemma get_account_data_present:
  "r (account_key i) = Some h \<Longrightarrow> f_account_type h = Some t \<Longrightarrow> f_balance h = Some b
     \<Longrightarrow> get_account_data r i = Inr (Some \<lparr>d_account_id = i, d_account_type = t, d_balance = b\<rparr>)"
  by (auto simp: get_account_data_def hgetall_def empty_hash_def Let_def)

lemma get_account_data_absent:
  "r (account_key i) = None \<Longrightarrow> get_account_data r i = Inr None"
  by (simp add: get_account_data_def hgetall_def)

lemma get_account_data_SomeD:
  "get_account_data r i = Inr (Some d) \<Longrightarrow>
     \<exists>h. r (account_key i) = Some h \<and> f_account_type h = Some (d_account_type d)
        \<and> f_balance h = Some (d_balance d)"
  by (auto simp: get_account_data_def hgetall_def empty_hash_def Let_def
      split: option.splits if_splits)

lemma redis_client_get_account_lock [simp]:
  "redis_client (get_account_lock self i) = redis_client self"
  by (simp add: get_account_lock_def)

section \<open>The handlers, case by case\<close>

lemma GetBalance_state [simp]: "snd (GetBalance self q context) = self"
  by (simp add: GetBalance_def split: sum.split option.split)

lemma GetBalance_present:
  assumes "redis_client self (account_key (ar_account_id q)) = Some h"
    and "f_account_type h = Some t" and "f_balance h = Some b"
  shows "GetBalance self q context =
           (Return \<lparr>b_account_id = ar_account_id q, b_balance = b,
                    b_message = [Lit ''Balance retrieved successfully'']\<rparr> context, self)"
proof -
  have "get_account_data (redis_client self) (ar_account_id q)
          = Inr (Some \<lparr>d_account_id = ar_account_id q, d_account_type = t, d_balance = b\<rparr>)"
    using assms by (rule get_account_data_present)
  then show ?thesis by (simp add: GetBalance_def)
qed

lemma GetBalance_absent:
  assumes "redis_client self (account_key (ar_account_id q)) = None"
  shows "GetBalance self q context =
           (Return BalanceResponse0
              (set_details ''Account not found. Please check the account ID.''
                 (set_code NOT_FOUND context)), self)"
  using assms by (simp add: GetBalance_def get_account_data_absent)

lemma Deposit_invalid:
  "dr_amount q \<le> 0 \<Longrightarrow>
     Deposit self q context =
       (Return TransactionResponse0
          (set_details ''Transaction amount must be positive.''
             (set_code INVALID_ARGUMENT context)), self)"
  by (simp add: Deposit_def)

lemma Deposit_absent:
  assumes "0 < dr_amount q" and "redis_client self (account_key (dr_account_id q)) = None"
  shows "Deposit self q context =
       (Return TransactionResponse0
          (set_details ''Account not found. Please check the account ID.''
             (set_code NOT_FOUND context)), get_account_lock self (dr_account_id q))"
proof -
  have "get_account_data (redis_client (get_account_lock self (dr_account_id q))) (dr_account_id q)
          = Inr None"
    using assms(2) by (simp add: get_account_data_absent)
  with assms(1) show ?thesis by (simp add: Deposit_def Let_def)
qed

lemma Deposit_present:
  assumes "0 < dr_amount q"
    and "redis_client self (account_key (dr_account_id q)) = Some h"
    and "f_account_type h = Some t" and "f_balance h = Some b"
  shows "Deposit self q context =
       (Return \<lparr>t_account_id = dr_account_id q,
                t_message = [Lit ''Successfully deposited $'', Fixed 2 (dr_amount q)],
                t_balance = b + dr_amount q\<rparr> context,
        (get_account_lock self (dr_account_id q))
          \<lparr>redis_client := hset_balance (redis_client self) (account_key (dr_account_id q))
                             (b + dr_amount q)\<rparr>)"
proof -
  have "get_account_data (redis_client (get_account_lock self (dr_account_id q))) (dr_account_id q)
          = Inr (Some \<lparr>d_account_id = dr_account_id q, d_account_type = t, d_balance = b\<rparr>)"
    using assms(2-4) by (simp add: get_account_data_present)
  with assms(1) show ?thesis by (simp add: Deposit_def Let_def)
qed

lemma Withdraw_invalid:
  "wr_amount q \<le> 0 \<Longrightarrow>
     Withdraw self q context =
       (Return TransactionResponse0
          (set_details ''Transaction amount must be positive.''
             (set_code INVALID_ARGUMENT context)), self)"
  by (simp add: Withdraw_def)

lemma Withdraw_absent:
  assumes "0 < wr_amount q" and "redis_client self (account_key (wr_account_id q)) = None"
  shows "Withdraw self q context =
       (Return TransactionResponse0
          (set_details ''Account not found. Please check the account ID.''
             (set_code NOT_FOUND context)), get_account_lock self (wr_account_id q))"
proof -
  have "get_account_data (redis_client (get_account_lock self (wr_account_id q))) (wr_account_id q)
          = Inr None"
    using assms(2) by (simp add: get_account_data_absent)
  with assms(1) show ?thesis by (simp add: Withdraw_def Let_def)
qed

lemma Withdraw_insufficient:
  assumes "0 < wr_amount q"
    and "redis_client self (account_key (wr_account_id q)) = Some h"
    and "f_account_type h = Some t" and "f_balance h = Some b"
    and "b < wr_amount q"
  shows "Withdraw self q context =
       (Return TransactionResponse0
          (set_details ''Insufficient funds for the requested withdrawal.''
             (set_code FAILED_PRECONDITION context)), get_account_lock self (wr_account_id q))"
proof -
  have "get_account_data (redis_client (get_account_lock self (wr_account_id q))) (wr_account_id q)
          = Inr (Some \<lparr>d_account_id = wr_account_id q, d_account_type = t, d_balance = b\<rparr>)"
    using assms(2-4) by (simp add: get_account_data_present)
  with assms(1,5) show ?thesis by (simp add: Withdraw_def Let_def)
qed

lemma Withdraw_present:
  assumes "0 < wr_amount q"
    and "redis_client self (account_key (wr_account_id q)) = Some h"
    and "f_account_type h = Some t" and "f_balance h = Some b"
    and "wr_amount q \<le> b"
  shows "Withdraw self q context =
       (Return \<lparr>t_account_id = wr_account_id q,
                t_message = [Lit ''Successfully withdrew $'', Fixed 2 (wr_amount q)],
                t_balance = b - wr_amount q\<rparr> context,
        (get_account_lock self (wr_account_id q))
          \<lparr>redis_client := hset_balance (redis_client self) (account_key (wr_account_id q))
                             (b - wr_amount q)\<rparr>)"
proof -
  have "get_account_data (redis_client (get_account_lock self (wr_account_id q))) (wr_account_id q)
          = Inr (Some \<lparr>d_account_id = wr_account_id q, d_account_type = t, d_balance = b\<rparr>)"
    using assms(2-4) by (simp add: get_account_data_present)
  with assms(1,5) show ?thesis by (simp add: Withdraw_def Let_def)
qed

lemma CalculateInterest_invalid:
  "ir_annual_interest_rate q \<le> 0 \<Longrightarrow>
     CalculateInterest self q context =
       (Return TransactionResponse0
          (set_details ''Annual interest rate must be a positive value.''
             (set_code INVALID_ARGUMENT context)), self)"
  by (simp add: CalculateInterest_def)

lemma CalculateInterest_absent:
  assumes "0 < ir_annual_interest_rate q"
    and "redis_client self (account_key (ir_account_id q)) = None"
  shows "CalculateInterest self q context =
       (Return TransactionResponse0
          (set_details ''Account not found. Please check the account ID.''
             (set_code NOT_FOUND context)), get_account_lock self (ir_account_id q))"
proof -
  have "get_account_data (redis_client (get_account_lock self (ir_account_id q))) (ir_account_id q)
          = Inr None"
    using assms(2) by (simp add: get_account_data_absent)
  with assms(1) show ?thesis by (simp add: CalculateInterest_def Let_def)
qed

lemma CalculateInterest_present:
  assumes "0 < ir_annual_interest_rate q"
    and "redis_client self (account_key (ir_account_id q)) = Some h"
    and "f_account_type h = Some t" and "f_balance h = Some b"
  shows "CalculateInterest self q context =
       (Return \<lparr>t_account_id = ir_account_id q,
                t_message =
                  [Lit ''Applied daily interest rate of '', Fixed 4 (ir_annual_interest_rate q),
                   Lit ''% to bank amount of $'', Fixed 2 b,
                   Lit '' for interest amount of $'',
                   Fixed 2 (b * (ir_annual_interest_rate q / 100))],
                t_balance = b + b * (ir_annual_interest_rate q / 100)\<rparr> context,
        (get_account_lock self (ir_account_id q))
          \<lparr>redis_client := hset_balance (redis_client self) (account_key (ir_account_id q))
                             (b + b * (ir_annual_interest_rate q / 100))\<rparr>)"
proof -
  have "get_account_data (redis_client (get_account_lock self (ir_account_id q))) (ir_account_id q)
          = Inr (Some \<lparr>d_account_id = ir_account_id q, d_account_type = t, d_balance = b\<rparr>)"
    using assms(2-4) by (simp add: get_account_data_present)
  with assms(1) show ?thesis by (simp add: CalculateInterest_def Let_def)
qed

lemma CreateAccount_invalid:
  "ar_account_type q \<noteq> ''savings'' \<Longrightarrow> ar_account_type q \<noteq> ''checking'' \<Longrightarrow>
     CreateAccount self q context =
       (Return AccountResponse0
          (set_details
             (''Account type must be '' @ [CHR 0x27] @ ''savings'' @ [CHR 0x27] @ '' or ''
                @ [CHR 0x27] @ ''checking'' @ [CHR 0x27])
             (set_code INVALID_ARGUMENT context)), self)"
  by (simp add: CreateAccount_def)

lemma CreateAccount_exists:
  "ar_account_type q = ''savings'' \<or> ar_account_type q = ''checking'' \<Longrightarrow>
   redis_client self (account_key (ar_account_id q)) = Some h \<Longrightarrow>
     CreateAccount self q context =
       (Return AccountResponse0
          (set_details ''Account already exists'' (set_code ALREADY_EXISTS context)), self)"
  by (auto simp: CreateAccount_def redis_exists_def)

lemma CreateAccount_new:
  "ar_account_type q = ''savings'' \<or> ar_account_type q = ''checking'' \<Longrightarrow>
   redis_client self (account_key (ar_account_id q)) = None \<Longrightarrow>
     CreateAccount self q context =
       (Return \<lparr>a_account_id = ar_account_id q,
                a_message = [Lit ''Account '', Lit (ar_account_id q),
                             Lit '' created successfully'']\<rparr> context,
        self\<lparr>redis_client :=
               hmset (redis_client self) (account_key (ar_account_id q)) (ar_account_type q) 0\<rparr>)"
  by (auto simp: CreateAccount_def redis_exists_def Let_def)


section \<open>Deposit\<close>

text \<open>
  Claim C1. On an account that exists with stored balance \<open>b\<close>, a deposit of an
  amount above zero returns with no failure code set, the response carries
  \<open>b + amount\<close>, the store holds \<open>b + amount\<close> for the account, and a
  \<^verbatim>\<open>GetBalance\<close> that follows on the same identifier returns \<open>b + amount\<close>.
\<close>

theorem Deposit_adds_amount:
  assumes "redis_client self (account_key (dr_account_id request)) = Some h"
    and "f_account_type h = Some t" and "f_balance h = Some b"
    and "0 < dr_amount request"
    and "ar_account_id q = dr_account_id request"
  shows "\<exists>resp self'.
           Deposit self request context = (Return resp context, self')
         \<and> t_balance resp = b + dr_amount request
         \<and> redis_client self' (account_key (dr_account_id request))
             = Some (h\<lparr>f_balance := Some (b + dr_amount request)\<rparr>)
         \<and> (\<exists>resp'. GetBalance self' q context' = (Return resp' context', self')
               \<and> b_balance resp' = b + dr_amount request)"
proof -
  let ?i = "dr_account_id request"
  let ?new = "b + dr_amount request"
  let ?self' = "(get_account_lock self ?i)
                  \<lparr>redis_client := hset_balance (redis_client self) (account_key ?i) ?new\<rparr>"
  let ?resp = "\<lparr>t_account_id = ?i,
                 t_message = [Lit ''Successfully deposited $'', Fixed 2 (dr_amount request)],
                 t_balance = ?new\<rparr>"
  have run: "Deposit self request context = (Return ?resp context, ?self')"
    using assms(4,1,2,3) by (rule Deposit_present)
  have stored: "redis_client ?self' (account_key ?i) = Some (h\<lparr>f_balance := Some ?new\<rparr>)"
    using assms(1) by (simp add: hset_balance_same)
  have "GetBalance ?self' q context' =
          (Return \<lparr>b_account_id = ar_account_id q, b_balance = ?new,
                   b_message = [Lit ''Balance retrieved successfully'']\<rparr> context', ?self')"
    using stored assms(2,5)
    by (intro GetBalance_present [where t = t and h = "h\<lparr>f_balance := Some ?new\<rparr>"]) simp_all
  with run stored show ?thesis by simp
qed

theorem Deposit_adds_amount_witness:
  "\<exists>resp self'.
     Deposit (one_account 1000) \<lparr>dr_account_id = ''A1'', dr_amount = 5\<rparr> new_context
       = (Return resp new_context, self')
     \<and> t_balance resp = 1005
     \<and> redis_client self' (account_key ''A1'')
          = Some \<lparr>f_account_type = Some ''savings'', f_balance = Some 1005\<rparr>
     \<and> (\<exists>resp'. GetBalance self' \<lparr>ar_account_id = ''A1'', ar_account_type = []\<rparr> new_context
                    = (Return resp' new_context, self')
               \<and> b_balance resp' = 1005)"
  using Deposit_adds_amount [of "one_account 1000" "\<lparr>dr_account_id = ''A1'', dr_amount = 5\<rparr>"
      "\<lparr>f_account_type = Some ''savings'', f_balance = Some 1000\<rparr>" "''savings''" 1000
      "\<lparr>ar_account_id = ''A1'', ar_account_type = []\<rparr>" new_context new_context]
  by (simp add: one_account_def init_def)

section \<open>Withdraw\<close>

text \<open>
  Claim C2. On an account that exists with stored balance \<open>b\<close>: a withdrawal
  of an amount of zero or less is rejected with \<^verbatim>\<open>INVALID_ARGUMENT\<close>; one of
  an amount above \<open>b\<close> is rejected with \<^verbatim>\<open>FAILED_PRECONDITION\<close> and the
  store stays as it was; one of an amount above zero and at most \<open>b\<close>
  succeeds, stores \<open>b - amount\<close> and returns it.
\<close>

theorem Withdraw_cases:
  assumes "redis_client self (account_key (wr_account_id request)) = Some h"
    and "f_account_type h = Some t" and "f_balance h = Some b"
  shows "(wr_amount request \<le> 0 \<longrightarrow>
            (\<exists>resp context'. Withdraw self request context = (Return resp context', self)
               \<and> code context' = INVALID_ARGUMENT))
       \<and> (0 < wr_amount request \<and> b < wr_amount request \<longrightarrow>
            (\<exists>resp context' self'. Withdraw self request context = (Return resp context', self')
               \<and> code context' = FAILED_PRECONDITION
               \<and> redis_client self' = redis_client self))
       \<and> (0 < wr_amount request \<and> wr_amount request \<le> b \<longrightarrow>
            (\<exists>resp self'. Withdraw self request context = (Return resp context, self')
               \<and> t_balance resp = b - wr_amount request
               \<and> redis_client self' (account_key (wr_account_id request))
                    = Some (h\<lparr>f_balance := Some (b - wr_amount request)\<rparr>)))"
proof (intro conjI impI)
  assume "wr_amount request \<le> 0"
  then show "\<exists>resp context'. Withdraw self request context = (Return resp context', self)
               \<and> code context' = INVALID_ARGUMENT"
    by (simp add: Withdraw_invalid set_code_def set_details_def)
next
  assume "0 < wr_amount request \<and> b < wr_amount request"
  then show "\<exists>resp context' self'. Withdraw self request context = (Return resp context', self')
               \<and> code context' = FAILED_PRECONDITION \<and> redis_client self' = redis_client self"
    using assms by (simp add: Withdraw_insufficient set_code_def set_details_def)
next
  assume "0 < wr_amount request \<and> wr_amount request \<le> b"
  then show "\<exists>resp self'. Withdraw self request context = (Return resp context, self')
               \<and> t_balance resp = b - wr_amount request
               \<and> redis_client self' (account_key (wr_account_id request))
                    = Some (h\<lparr>f_balance := Some (b - wr_amount request)\<rparr>)"
    using assms by (simp add: Withdraw_present hset_balance_same)
qed

theorem Withdraw_cases_witness:
  "(\<exists>resp context'.
      Withdraw (one_account 1000) \<lparr>wr_account_id = ''A1'', wr_amount = - 5\<rparr> new_context
        = (Return resp context', one_account 1000)
      \<and> code context' = INVALID_ARGUMENT)
   \<and> (\<exists>resp context' self'.
      Withdraw (one_account 1000) \<lparr>wr_account_id = ''A1'', wr_amount = 1500\<rparr> new_context
        = (Return resp context', self')
      \<and> code context' = FAILED_PRECONDITION
      \<and> redis_client self' = redis_client (one_account 1000))
   \<and> (\<exists>resp self'.
      Withdraw (one_account 1000) \<lparr>wr_account_id = ''A1'', wr_amount = 500\<rparr> new_context
        = (Return resp new_context, self')
      \<and> t_balance resp = 500
      \<and> redis_client self' (account_key ''A1'')
           = Some \<lparr>f_account_type = Some ''savings'', f_balance = Some 500\<rparr>)"
  using
    Withdraw_cases [of "one_account 1000" "\<lparr>wr_account_id = ''A1'', wr_amount = - 5\<rparr>"
      "\<lparr>f_account_type = Some ''savings'', f_balance = Some 1000\<rparr>" "''savings''" 1000 new_context]
    Withdraw_cases [of "one_account 1000" "\<lparr>wr_account_id = ''A1'', wr_amount = 1500\<rparr>"
      "\<lparr>f_account_type = Some ''savings'', f_balance = Some 1000\<rparr>" "''savings''" 1000 new_context]
    Withdraw_cases [of "one_account 1000" "\<lparr>wr_account_id = ''A1'', wr_amount = 500\<rparr>"
      "\<lparr>f_account_type = Some ''savings'', f_balance = Some 1000\<rparr>" "''savings''" 1000 new_context]
  by (simp add: one_account_def init_def)

section \<open>CalculateInterest\<close>

text \<open>
  Claim C3. On an account that exists with stored balance \<open>b\<close>, a rate
  \<open>r\<close> above zero is applied whole, once: the new stored balance and the
  balance of the response are \<open>b + b * (r / 100)\<close>. A rate of zero or less is
  rejected with \<^verbatim>\<open>INVALID_ARGUMENT\<close>.
\<close>

theorem CalculateInterest_single_period:
  assumes "redis_client self (account_key (ir_account_id request)) = Some h"
    and "f_account_type h = Some t" and "f_balance h = Some b"
  shows "(0 < ir_annual_interest_rate request \<longrightarrow>
            (\<exists>resp self'. CalculateInterest self request context = (Return resp context, self')
               \<and> t_balance resp = b + b * (ir_annual_interest_rate request / 100)
               \<and> redis_client self' (account_key (ir_account_id request))
                    = Some (h\<lparr>f_balance := Some (b + b * (ir_annual_interest_rate request / 100))\<rparr>)))
       \<and> (ir_annual_interest_rate request \<le> 0 \<longrightarrow>
            (\<exists>resp context'. CalculateInterest self request context = (Return resp context', self)
               \<and> code context' = INVALID_ARGUMENT))"
proof (intro conjI impI)
  assume "0 < ir_annual_interest_rate request"
  then show "\<exists>resp self'. CalculateInterest self request context = (Return resp context, self')
               \<and> t_balance resp = b + b * (ir_annual_interest_rate request / 100)
               \<and> redis_client self' (account_key (ir_account_id request))
                    = Some (h\<lparr>f_balance := Some (b + b * (ir_annual_interest_rate request / 100))\<rparr>)"
    using assms by (simp add: CalculateInterest_present hset_balance_same)
next
  assume "ir_annual_interest_rate request \<le> 0"
  then show "\<exists>resp context'. CalculateInterest self request context = (Return resp context', self)
               \<and> code context' = INVALID_ARGUMENT"
    by (simp add: CalculateInterest_invalid set_code_def set_details_def)
qed

theorem CalculateInterest_single_period_witness:
  "(\<exists>resp self'.
      CalculateInterest (one_account 500) \<lparr>ir_account_id = ''A1'', ir_annual_interest_rate = 10\<rparr>
          new_context
        = (Return resp new_context, self')
      \<and> t_balance resp = 550
      \<and> redis_client self' (account_key ''A1'')
           = Some \<lparr>f_account_type = Some ''savings'', f_balance = Some 550\<rparr>)
   \<and> (\<exists>resp context'.
      CalculateInterest (one_account 500) \<lparr>ir_account_id = ''A1'', ir_annual_interest_rate = 0\<rparr>
          new_context
        = (Return resp context', one_account 500)
      \<and> code context' = INVALID_ARGUMENT)"
  using
    CalculateInterest_single_period [of "one_account 500"
      "\<lparr>ir_account_id = ''A1'', ir_annual_interest_rate = 10\<rparr>"
      "\<lparr>f_account_type = Some ''savings'', f_balance = Some 500\<rparr>" "''savings''" 500 new_context]
    CalculateInterest_single_period [of "one_account 500"
      "\<lparr>ir_account_id = ''A1'', ir_annual_interest_rate = 0\<rparr>"
      "\<lparr>f_account_type = Some ''savings'', f_balance = Some 500\<rparr>" "''savings''" 500 new_context]
  by (simp add: one_account_def init_def)


section \<open>The effect of a call on the store\<close>

lemma status_map_outcome [simp]: "status (map_outcome f out) = status out"
  by (cases out) simp_all

lemma Deposit_effect:
  "redis_client (snd (Deposit self q context)) = redis_client self
   \<or> (\<exists>h b. status (fst (Deposit self q context)) = Some (code context)
         \<and> redis_client self (account_key (dr_account_id q)) = Some h
         \<and> f_balance h = Some b \<and> 0 < dr_amount q
         \<and> redis_client (snd (Deposit self q context))
             = (redis_client self)(account_key (dr_account_id q) \<mapsto>
                  h\<lparr>f_balance := Some (b + dr_amount q)\<rparr>))"
proof (cases "dr_amount q \<le> 0")
  case True
  then show ?thesis by (simp add: Deposit_invalid)
next
  case pos: False
  show ?thesis
  proof (cases "get_account_data (redis_client self) (dr_account_id q)")
    case (Inl e)
    with pos show ?thesis by (simp add: Deposit_def Let_def)
  next
    case (Inr found)
    show ?thesis
    proof (cases found)
      case None
      with Inr pos show ?thesis by (simp add: Deposit_def Let_def)
    next
      case (Some d)
      with Inr obtain h where h: "redis_client self (account_key (dr_account_id q)) = Some h"
        "f_account_type h = Some (d_account_type d)" "f_balance h = Some (d_balance d)"
        using get_account_data_SomeD by blast
      from pos have "0 < dr_amount q" by simp
      from Deposit_present [OF this h, of "context"] h pos show ?thesis
        by (simp add: hset_balance_def hgetall_def)
    qed
  qed
qed

lemma Withdraw_effect:
  "redis_client (snd (Withdraw self q context)) = redis_client self
   \<or> (\<exists>h b. status (fst (Withdraw self q context)) = Some (code context)
         \<and> redis_client self (account_key (wr_account_id q)) = Some h
         \<and> f_balance h = Some b \<and> 0 < wr_amount q \<and> wr_amount q \<le> b
         \<and> redis_client (snd (Withdraw self q context))
             = (redis_client self)(account_key (wr_account_id q) \<mapsto>
                  h\<lparr>f_balance := Some (b - wr_amount q)\<rparr>))"
proof (cases "wr_amount q \<le> 0")
  case True
  then show ?thesis by (simp add: Withdraw_invalid)
next
  case pos: False
  show ?thesis
  proof (cases "get_account_data (redis_client self) (wr_account_id q)")
    case (Inl e)
    with pos show ?thesis by (simp add: Withdraw_def Let_def)
  next
    case (Inr found)
    show ?thesis
    proof (cases found)
      case None
      with Inr pos show ?thesis by (simp add: Withdraw_def Let_def)
    next
      case (Some d)
      with Inr obtain h where h: "redis_client self (account_key (wr_account_id q)) = Some h"
        "f_account_type h = Some (d_account_type d)" "f_balance h = Some (d_balance d)"
        using get_account_data_SomeD by blast
      from pos have p: "0 < wr_amount q" by simp
      show ?thesis
      proof (cases "d_balance d < wr_amount q")
        case True
        from Withdraw_insufficient [OF p h True, of "context"] show ?thesis by simp
      next
        case False
        then have "wr_amount q \<le> d_balance d" by simp
        from Withdraw_present [OF p h this, of "context"] h p this show ?thesis
          by (simp add: hset_balance_def hgetall_def)
      qed
    qed
  qed
qed

lemma CalculateInterest_effect:
  "redis_client (snd (CalculateInterest self q context)) = redis_client self
   \<or> (\<exists>h b. status (fst (CalculateInterest self q context)) = Some (code context)
         \<and> redis_client self (account_key (ir_account_id q)) = Some h
         \<and> f_balance h = Some b \<and> 0 < ir_annual_interest_rate q
         \<and> redis_client (snd (CalculateInterest self q context))
             = (redis_client self)(account_key (ir_account_id q) \<mapsto>
                  h\<lparr>f_balance := Some (b + b * (ir_annual_interest_rate q / 100))\<rparr>))"
proof (cases "ir_annual_interest_rate q \<le> 0")
  case True
  then show ?thesis by (simp add: CalculateInterest_invalid)
next
  case pos: False
  show ?thesis
  proof (cases "get_account_data (redis_client self) (ir_account_id q)")
    case (Inl e)
    with pos show ?thesis by (simp add: CalculateInterest_def Let_def)
  next
    case (Inr found)
    show ?thesis
    proof (cases found)
      case None
      with Inr pos show ?thesis by (simp add: CalculateInterest_def Let_def)
    next
      case (Some d)
      with Inr obtain h where h: "redis_client self (account_key (ir_account_id q)) = Some h"
        "f_account_type h = Some (d_account_type d)" "f_balance h = Some (d_balance d)"
        using get_account_data_SomeD by blast
      from pos have "0 < ir_annual_interest_rate q" by simp
      from CalculateInterest_present [OF this h, of "context"] h pos show ?thesis
        by (simp add: hset_balance_def hgetall_def)
    qed
  qed
qed

lemma CreateAccount_effect:
  "redis_client (snd (CreateAccount self q context)) = redis_client self
   \<or> (status (fst (CreateAccount self q context)) = Some (code context)
       \<and> redis_client self (account_key (ar_account_id q)) = None
       \<and> redis_client (snd (CreateAccount self q context))
           = (redis_client self)(account_key (ar_account_id q) \<mapsto>
                \<lparr>f_account_type = Some (ar_account_type q), f_balance = Some 0\<rparr>))"
  by (simp add: CreateAccount_def Let_def redis_exists_def hmset_def hgetall_def empty_hash_def)

lemma code_new_context [simp]: "code new_context = OK"
  by (simp add: new_context_def)

lemma invoke_state:
  "snd (invoke self (CreateAccountRpc a)) = snd (CreateAccount self a new_context)"
  "snd (invoke self (GetBalanceRpc a)) = self"
  "snd (invoke self (DepositRpc d)) = snd (Deposit self d new_context)"
  "snd (invoke self (WithdrawRpc w)) = snd (Withdraw self w new_context)"
  "snd (invoke self (CalculateInterestRpc i)) = snd (CalculateInterest self i new_context)"
  by (simp_all add: case_prod_beta)

lemma invoke_status:
  "status (fst (invoke self (CreateAccountRpc a))) = status (fst (CreateAccount self a new_context))"
  "status (fst (invoke self (GetBalanceRpc a))) = status (fst (GetBalance self a new_context))"
  "status (fst (invoke self (DepositRpc d))) = status (fst (Deposit self d new_context))"
  "status (fst (invoke self (WithdrawRpc w))) = status (fst (Withdraw self w new_context))"
  "status (fst (invoke self (CalculateInterestRpc i)))
     = status (fst (CalculateInterest self i new_context))"
  by (simp_all add: case_prod_beta)

text \<open>What one call does to the store: nothing, a new account, or a new balance.\<close>

lemma invoke_effect:
  "redis_client (snd (invoke self c)) = redis_client self
   \<or> (\<exists>t. status (fst (invoke self c)) = Some OK
         \<and> redis_client self (account_key (rpc_account_id c)) = None
         \<and> redis_client (snd (invoke self c))
             = (redis_client self)(account_key (rpc_account_id c) \<mapsto>
                  \<lparr>f_account_type = Some t, f_balance = Some 0\<rparr>))
   \<or> (\<exists>h b v. status (fst (invoke self c)) = Some OK
         \<and> redis_client self (account_key (rpc_account_id c)) = Some h
         \<and> f_balance h = Some b \<and> (0 \<le> b \<longrightarrow> 0 \<le> v)
         \<and> redis_client (snd (invoke self c))
             = (redis_client self)(account_key (rpc_account_id c) \<mapsto> h\<lparr>f_balance := Some v\<rparr>))"
proof (cases c)
  case (CreateAccountRpc q)
  from CreateAccount_effect [of self q new_context] show ?thesis
  proof (elim disjE conjE)
    assume "redis_client (snd (CreateAccount self q new_context)) = redis_client self"
    with CreateAccountRpc show ?thesis by (simp add: invoke_state del: invoke.simps)
  next
    assume st: "status (fst (CreateAccount self q new_context)) = Some (code new_context)"
      and h: "redis_client self (account_key (ar_account_id q)) = None"
      and upd: "redis_client (snd (CreateAccount self q new_context))
                  = (redis_client self)(account_key (ar_account_id q) \<mapsto>
                       \<lparr>f_account_type = Some (ar_account_type q), f_balance = Some 0\<rparr>)"
    have 1: "status (fst (invoke self c)) = Some OK"
      using st CreateAccountRpc by (simp add: invoke_status del: invoke.simps)
    have 2: "redis_client self (account_key (rpc_account_id c)) = None"
      using h CreateAccountRpc by simp
    have 4: "redis_client (snd (invoke self c))
               = (redis_client self)(account_key (rpc_account_id c) \<mapsto>
                    \<lparr>f_account_type = Some (ar_account_type q), f_balance = Some 0\<rparr>)"
      using upd CreateAccountRpc by (simp add: invoke_state del: invoke.simps)
    from 1 2 4 show ?thesis by blast
  qed
next
  case (GetBalanceRpc q)
  then show ?thesis by (simp add: invoke_state del: invoke.simps)
next
  case (DepositRpc q)
  let ?K = "account_key (dr_account_id q)"
  from Deposit_effect [of self q new_context] show ?thesis
  proof (elim disjE exE conjE)
    assume "redis_client (snd (Deposit self q new_context)) = redis_client self"
    with DepositRpc show ?thesis by (simp add: invoke_state del: invoke.simps)
  next
    fix h b
    assume st: "status (fst (Deposit self q new_context)) = Some (code new_context)"
      and h: "redis_client self ?K = Some h" and b: "f_balance h = Some b"
      and pos: "0 < dr_amount q"
      and upd: "redis_client (snd (Deposit self q new_context))
                  = (redis_client self)(?K \<mapsto> h\<lparr>f_balance := Some (b + dr_amount q)\<rparr>)"
    have 1: "status (fst (invoke self c)) = Some OK"
      using st DepositRpc by (simp add: invoke_status del: invoke.simps)
    have 2: "redis_client self (account_key (rpc_account_id c)) = Some h"
      using h DepositRpc by simp
    have 3: "0 \<le> b \<longrightarrow> 0 \<le> b + dr_amount q"
      using pos by simp
    have 4: "redis_client (snd (invoke self c))
               = (redis_client self)(account_key (rpc_account_id c) \<mapsto>
                    h\<lparr>f_balance := Some (b + dr_amount q)\<rparr>)"
      using upd DepositRpc by (simp add: invoke_state del: invoke.simps)
    from 1 2 b 3 4 show ?thesis by blast
  qed
next
  case (WithdrawRpc q)
  let ?K = "account_key (wr_account_id q)"
  from Withdraw_effect [of self q new_context] show ?thesis
  proof (elim disjE exE conjE)
    assume "redis_client (snd (Withdraw self q new_context)) = redis_client self"
    with WithdrawRpc show ?thesis by (simp add: invoke_state del: invoke.simps)
  next
    fix h b
    assume st: "status (fst (Withdraw self q new_context)) = Some (code new_context)"
      and h: "redis_client self ?K = Some h" and b: "f_balance h = Some b"
      and pos0: "0 < wr_amount q" and pos: "wr_amount q \<le> b"
      and upd: "redis_client (snd (Withdraw self q new_context))
                  = (redis_client self)(?K \<mapsto> h\<lparr>f_balance := Some (b - wr_amount q)\<rparr>)"
    have 1: "status (fst (invoke self c)) = Some OK"
      using st WithdrawRpc by (simp add: invoke_status del: invoke.simps)
    have 2: "redis_client self (account_key (rpc_account_id c)) = Some h"
      using h WithdrawRpc by simp
    have 3: "0 \<le> b \<longrightarrow> 0 \<le> b - wr_amount q"
      using pos by simp
    have 4: "redis_client (snd (invoke self c))
               = (redis_client self)(account_key (rpc_account_id c) \<mapsto>
                    h\<lparr>f_balance := Some (b - wr_amount q)\<rparr>)"
      using upd WithdrawRpc by (simp add: invoke_state del: invoke.simps)
    from 1 2 b 3 4 show ?thesis by blast
  qed
next
  case (CalculateInterestRpc q)
  let ?K = "account_key (ir_account_id q)"
  from CalculateInterest_effect [of self q new_context] show ?thesis
  proof (elim disjE exE conjE)
    assume "redis_client (snd (CalculateInterest self q new_context)) = redis_client self"
    with CalculateInterestRpc show ?thesis by (simp add: invoke_state del: invoke.simps)
  next
    fix h b
    assume st: "status (fst (CalculateInterest self q new_context)) = Some (code new_context)"
      and h: "redis_client self ?K = Some h" and b: "f_balance h = Some b"
      and pos: "0 < ir_annual_interest_rate q"
      and upd: "redis_client (snd (CalculateInterest self q new_context))
                  = (redis_client self)(?K \<mapsto> h\<lparr>f_balance := Some (b + b * (ir_annual_interest_rate q / 100))\<rparr>)"
    have 1: "status (fst (invoke self c)) = Some OK"
      using st CalculateInterestRpc by (simp add: invoke_status del: invoke.simps)
    have 2: "redis_client self (account_key (rpc_account_id c)) = Some h"
      using h CalculateInterestRpc by simp
    have 3: "0 \<le> b \<longrightarrow> 0 \<le> b + b * (ir_annual_interest_rate q / 100)"
      using pos by simp
    have 4: "redis_client (snd (invoke self c))
               = (redis_client self)(account_key (rpc_account_id c) \<mapsto>
                    h\<lparr>f_balance := Some (b + b * (ir_annual_interest_rate q / 100))\<rparr>)"
      using upd CalculateInterestRpc by (simp add: invoke_state del: invoke.simps)
    from 1 2 b 3 4 show ?thesis by blast
  qed
qed

lemma invoke_keeps_account:
  assumes "redis_client self key = Some h"
  shows "\<exists>h'. redis_client (snd (invoke self c)) key = Some h'"
  using invoke_effect [of self c] assms by (elim disjE exE conjE) auto

lemma serve_keeps_account:
  "redis_client self key = Some h \<Longrightarrow> \<exists>h'. redis_client (serve self cs) key = Some h'"
proof (induction cs arbitrary: self h)
  case Nil
  then show ?case by simp
next
  case (Cons c cs)
  from invoke_keeps_account [OF Cons.prems, of c]
  obtain h' where "redis_client (snd (invoke self c)) key = Some h'" ..
  from Cons.IH [OF this] show ?case by simp
qed

lemmas run_defs =
  CreateAccount_def GetBalance_def Deposit_def Withdraw_def CalculateInterest_def
  get_account_lock_def get_account_data_def hgetall_def hmset_def hset_balance_def
  redis_exists_def empty_hash_def account_key_def new_context_def set_code_def set_details_def
  one_account_def init_def Let_def

section \<open>Failures\<close>

text \<open>
  Claim C4. A call of any of the five operations that ends with the status
  \<^verbatim>\<open>INVALID_ARGUMENT\<close>, \<^verbatim>\<open>ALREADY_EXISTS\<close>, \<^verbatim>\<open>NOT_FOUND\<close> or
  \<^verbatim>\<open>FAILED_PRECONDITION\<close> leaves the store exactly as it was; and a deposit of
  an amount below zero is such a call: it is rejected with
  \<^verbatim>\<open>INVALID_ARGUMENT\<close> and changes nothing.
\<close>

theorem failure_leaves_store:
  assumes "status (fst (invoke self c)) = Some k"
    and "k \<in> {INVALID_ARGUMENT, ALREADY_EXISTS, NOT_FOUND, FAILED_PRECONDITION}"
  shows "redis_client (snd (invoke self c)) = redis_client self
       \<and> (\<forall>request context'. dr_amount request < 0 \<longrightarrow>
            (\<exists>resp context''. Deposit self request context' = (Return resp context'', self)
               \<and> code context'' = INVALID_ARGUMENT))"
proof
  from assms have "status (fst (invoke self c)) \<noteq> Some OK" by auto
  with invoke_effect [of self c] show "redis_client (snd (invoke self c)) = redis_client self"
    by blast
next
  show "\<forall>request context'. dr_amount request < 0 \<longrightarrow>
            (\<exists>resp context''. Deposit self request context' = (Return resp context'', self)
               \<and> code context'' = INVALID_ARGUMENT)"
    by (simp add: Deposit_invalid set_code_def set_details_def)
qed

theorem failure_leaves_store_witness:
  "status (fst (invoke (one_account 1000) (WithdrawRpc \<lparr>wr_account_id = ''A1'', wr_amount = 1500\<rparr>)))
     = Some FAILED_PRECONDITION
   \<and> redis_client (snd (invoke (one_account 1000)
                           (WithdrawRpc \<lparr>wr_account_id = ''A1'', wr_amount = 1500\<rparr>)))
       = redis_client (one_account 1000)
   \<and> (\<exists>resp context''.
         Deposit (one_account 1000) \<lparr>dr_account_id = ''A1'', dr_amount = - 5\<rparr> new_context
           = (Return resp context'', one_account 1000)
         \<and> code context'' = INVALID_ARGUMENT)"
proof -
  have st: "status (fst (invoke (one_account 1000)
                (WithdrawRpc \<lparr>wr_account_id = ''A1'', wr_amount = 1500\<rparr>)))
              = Some FAILED_PRECONDITION"
    by (simp add: run_defs)
  have "(- 5 :: real) < 0" by simp
  with failure_leaves_store [OF st] st show ?thesis by simp
qed

section \<open>CreateAccount\<close>

text \<open>
  Claim C6. With a type that is \<^verbatim>\<open>savings\<close> or \<^verbatim>\<open>checking\<close> and an
  identifier that has no record, \<^verbatim>\<open>CreateAccount\<close> succeeds and stores the
  balance zero, and a \<^verbatim>\<open>GetBalance\<close> that follows on the identifier returns
  zero.
\<close>

theorem CreateAccount_then_GetBalance:
  assumes "ar_account_type request = ''savings'' \<or> ar_account_type request = ''checking''"
    and "redis_client self (account_key (ar_account_id request)) = None"
    and "ar_account_id q = ar_account_id request"
  shows "\<exists>resp self'.
           CreateAccount self request context' = (Return resp context', self')
         \<and> redis_client self' (account_key (ar_account_id request))
             = Some \<lparr>f_account_type = Some (ar_account_type request), f_balance = Some 0\<rparr>
         \<and> (\<exists>resp'. GetBalance self' q context'' = (Return resp' context'', self')
               \<and> b_balance resp' = 0)"
proof -
  let ?K = "account_key (ar_account_id request)"
  let ?self' = "self\<lparr>redis_client :=
                       hmset (redis_client self) ?K (ar_account_type request) 0\<rparr>"
  let ?h = "\<lparr>f_account_type = Some (ar_account_type request), f_balance = Some 0\<rparr>"
  have run: "CreateAccount self request context' =
          (Return \<lparr>a_account_id = ar_account_id request,
                   a_message = [Lit ''Account '', Lit (ar_account_id request),
                                Lit '' created successfully'']\<rparr> context', ?self')"
    using assms(1,2) by (rule CreateAccount_new)
  have stored: "redis_client ?self' ?K = Some ?h"
    using assms(2) by (simp add: hmset_same)
  have "GetBalance ?self' q context'' =
          (Return \<lparr>b_account_id = ar_account_id q, b_balance = 0,
                   b_message = [Lit ''Balance retrieved successfully'']\<rparr> context'', ?self')"
    using stored assms(3)
    by (intro GetBalance_present [where t = "ar_account_type request" and h = ?h]) simp_all
  with run stored show ?thesis by simp
qed

theorem CreateAccount_then_GetBalance_witness:
  "\<exists>resp self'.
     CreateAccount (init Map.empty) \<lparr>ar_account_id = ''A1'', ar_account_type = ''checking''\<rparr>
         new_context
       = (Return resp new_context, self')
     \<and> redis_client self' (account_key ''A1'')
         = Some \<lparr>f_account_type = Some ''checking'', f_balance = Some 0\<rparr>
     \<and> (\<exists>resp'. GetBalance self' \<lparr>ar_account_id = ''A1'', ar_account_type = []\<rparr> new_context
                    = (Return resp' new_context, self')
               \<and> b_balance resp' = 0)"
  using CreateAccount_then_GetBalance [of "\<lparr>ar_account_id = ''A1'', ar_account_type = ''checking''\<rparr>"
      "init Map.empty" "\<lparr>ar_account_id = ''A1'', ar_account_type = []\<rparr>" new_context new_context]
  by (simp add: init_def)

text \<open>
  Claim C7 says that each of the five operations answers \<^verbatim>\<open>NOT_FOUND\<close> on an
  identifier that has no record. \<^verbatim>\<open>CreateAccount\<close> does not: on the empty
  store it creates the account \<open>ZZZ\<close> and ends with no failure code.
\<close>

theorem CreateAccount_absent_counterexample:
  "redis_client (init Map.empty) (account_key ''ZZZ'') = None
   \<and> status (fst (invoke (init Map.empty)
                     (CreateAccountRpc \<lparr>ar_account_id = ''ZZZ'', ar_account_type = ''savings''\<rparr>)))
       = Some OK
   \<and> status (fst (invoke (init Map.empty)
                     (CreateAccountRpc \<lparr>ar_account_id = ''ZZZ'', ar_account_type = ''savings''\<rparr>)))
       \<noteq> Some NOT_FOUND"
  by (simp add: run_defs)

text \<open>
  Claim C7, amended. On an identifier that has no record, \<^verbatim>\<open>GetBalance\<close>
  answers \<^verbatim>\<open>NOT_FOUND\<close>; \<^verbatim>\<open>Deposit\<close>, \<^verbatim>\<open>Withdraw\<close> and
  \<^verbatim>\<open>CalculateInterest\<close> answer \<^verbatim>\<open>INVALID_ARGUMENT\<close> when the amount or
  rate is zero or less, and \<^verbatim>\<open>NOT_FOUND\<close> otherwise, the argument being
  checked first; \<^verbatim>\<open>CreateAccount\<close> never answers \<^verbatim>\<open>NOT_FOUND\<close>: it succeeds for
  a valid type and answers \<^verbatim>\<open>INVALID_ARGUMENT\<close> for any other.
\<close>

theorem absent_account_status:
  assumes "redis_client self (account_key (rpc_account_id c)) = None"
  shows "status (fst (invoke self c)) =
           Some (case c of
                   CreateAccountRpc q \<Rightarrow>
                     if ar_account_type q \<in> set [''savings'', ''checking'']
                     then OK else INVALID_ARGUMENT
                 | GetBalanceRpc q \<Rightarrow> NOT_FOUND
                 | DepositRpc q \<Rightarrow> if dr_amount q \<le> 0 then INVALID_ARGUMENT else NOT_FOUND
                 | WithdrawRpc q \<Rightarrow> if wr_amount q \<le> 0 then INVALID_ARGUMENT else NOT_FOUND
                 | CalculateInterestRpc q \<Rightarrow>
                     if ir_annual_interest_rate q \<le> 0 then INVALID_ARGUMENT else NOT_FOUND)"
proof (cases c)
  case (CreateAccountRpc q)
  with assms show ?thesis
    by (auto simp: invoke_status CreateAccount_new CreateAccount_invalid set_code_def
        set_details_def simp del: invoke.simps)
next
  case (GetBalanceRpc q)
  with assms show ?thesis
    by (simp add: invoke_status GetBalance_absent set_code_def set_details_def
        del: invoke.simps)
next
  case (DepositRpc q)
  with assms show ?thesis
    by (simp add: invoke_status Deposit_absent Deposit_invalid set_code_def set_details_def
        del: invoke.simps)
next
  case (WithdrawRpc q)
  with assms show ?thesis
    by (simp add: invoke_status Withdraw_absent Withdraw_invalid set_code_def set_details_def
        del: invoke.simps)
next
  case (CalculateInterestRpc q)
  with assms show ?thesis
    by (simp add: invoke_status CalculateInterest_absent CalculateInterest_invalid
        set_code_def set_details_def del: invoke.simps)
qed

theorem absent_account_status_witness:
  "status (fst (invoke (init Map.empty)
                  (GetBalanceRpc \<lparr>ar_account_id = ''ZZZ'', ar_account_type = []\<rparr>)))
     = Some NOT_FOUND
   \<and> status (fst (invoke (init Map.empty)
                  (DepositRpc \<lparr>dr_account_id = ''ZZZ'', dr_amount = 1\<rparr>)))
     = Some NOT_FOUND
   \<and> status (fst (invoke (init Map.empty)
                  (WithdrawRpc \<lparr>wr_account_id = ''ZZZ'', wr_amount = 0\<rparr>)))
     = Some INVALID_ARGUMENT
   \<and> status (fst (invoke (init Map.empty)
                  (CreateAccountRpc \<lparr>ar_account_id = ''ZZZ'', ar_account_type = ''savings''\<rparr>)))
     = Some OK"
  using
    absent_account_status [of "init Map.empty"
      "GetBalanceRpc \<lparr>ar_account_id = ''ZZZ'', ar_account_type = []\<rparr>"]
    absent_account_status [of "init Map.empty"
      "DepositRpc \<lparr>dr_account_id = ''ZZZ'', dr_amount = 1\<rparr>"]
    absent_account_status [of "init Map.empty"
      "WithdrawRpc \<lparr>wr_account_id = ''ZZZ'', wr_amount = 0\<rparr>"]
    absent_account_status [of "init Map.empty"
      "CreateAccountRpc \<lparr>ar_account_id = ''ZZZ'', ar_account_type = ''savings''\<rparr>"]
  by (simp add: init_def del: invoke.simps)

text \<open>
  Claim C8 says that \<^verbatim>\<open>CreateAccount\<close> on an identifier that has a record
  answers \<^verbatim>\<open>ALREADY_EXISTS\<close> whatever the type. The type is checked first:
  with the type \<open>gold\<close> the answer is \<^verbatim>\<open>INVALID_ARGUMENT\<close>.
\<close>

theorem CreateAccount_existing_counterexample:
  "redis_exists (redis_client (one_account 0)) (account_key ''A1'')
   \<and> status (fst (invoke (one_account 0)
                     (CreateAccountRpc \<lparr>ar_account_id = ''A1'', ar_account_type = ''gold''\<rparr>)))
       = Some INVALID_ARGUMENT
   \<and> status (fst (invoke (one_account 0)
                     (CreateAccountRpc \<lparr>ar_account_id = ''A1'', ar_account_type = ''gold''\<rparr>)))
       \<noteq> Some ALREADY_EXISTS"
  by (simp add: run_defs)

text \<open>
  Claim C8, amended. On an identifier that has a record, and after any
  sequence of further calls, \<^verbatim>\<open>CreateAccount\<close> with the type
  \<^verbatim>\<open>savings\<close> or \<^verbatim>\<open>checking\<close> answers \<^verbatim>\<open>ALREADY_EXISTS\<close>, with any
  other type it answers \<^verbatim>\<open>INVALID_ARGUMENT\<close>, and in both cases it leaves
  the servicer's state as it was.
\<close>

theorem CreateAccount_existing:
  assumes "redis_client self (account_key (ar_account_id request)) = Some h"
  shows "status (fst (invoke (serve self cs) (CreateAccountRpc request)))
           = Some (if ar_account_type request \<in> set [''savings'', ''checking'']
                   then ALREADY_EXISTS else INVALID_ARGUMENT)
       \<and> snd (invoke (serve self cs) (CreateAccountRpc request)) = serve self cs"
proof -
  from serve_keeps_account [OF assms, of cs]
  obtain h' where "redis_client (serve self cs) (account_key (ar_account_id request)) = Some h'" ..
  then show ?thesis
    by (auto simp: invoke_status invoke_state CreateAccount_exists CreateAccount_invalid
        set_code_def set_details_def simp del: invoke.simps)
qed

theorem CreateAccount_existing_witness:
  "status (fst (invoke (serve (one_account 0) [DepositRpc \<lparr>dr_account_id = ''A1'', dr_amount = 7\<rparr>])
                  (CreateAccountRpc \<lparr>ar_account_id = ''A1'', ar_account_type = ''savings''\<rparr>)))
     = Some ALREADY_EXISTS
   \<and> snd (invoke (serve (one_account 0) [DepositRpc \<lparr>dr_account_id = ''A1'', dr_amount = 7\<rparr>])
                  (CreateAccountRpc \<lparr>ar_account_id = ''A1'', ar_account_type = ''savings''\<rparr>))
     = serve (one_account 0) [DepositRpc \<lparr>dr_account_id = ''A1'', dr_amount = 7\<rparr>]
   \<and> status (fst (invoke (serve (one_account 0) [])
                  (CreateAccountRpc \<lparr>ar_account_id = ''A1'', ar_account_type = ''gold''\<rparr>)))
     = Some INVALID_ARGUMENT"
  using
    CreateAccount_existing [of "one_account 0"
      "\<lparr>ar_account_id = ''A1'', ar_account_type = ''savings''\<rparr>"
      "\<lparr>f_account_type = Some ''savings'', f_balance = Some 0\<rparr>"
      "[DepositRpc \<lparr>dr_account_id = ''A1'', dr_amount = 7\<rparr>]"]
    CreateAccount_existing [of "one_account 0"
      "\<lparr>ar_account_id = ''A1'', ar_account_type = ''gold''\<rparr>"
      "\<lparr>f_account_type = Some ''savings'', f_balance = Some 0\<rparr>" "[]"]
  by (simp add: one_account_def init_def del: invoke.simps serve.simps)

section \<open>What a handler leaves alone\<close>

lemma Deposit_success:
  assumes "status (fst (Deposit self q new_context)) = Some OK"
  shows "\<exists>h t b. 0 < dr_amount q
           \<and> redis_client self (account_key (dr_account_id q)) = Some h
           \<and> f_account_type h = Some t \<and> f_balance h = Some b"
proof (cases "dr_amount q \<le> 0")
  case True
  with assms show ?thesis
    by (simp add: Deposit_invalid set_code_def set_details_def)
next
  case pos: False
  show ?thesis
  proof (cases "get_account_data (redis_client self) (dr_account_id q)")
    case (Inl e)
    with pos assms show ?thesis by (simp add: Deposit_def Let_def)
  next
    case (Inr found)
    show ?thesis
    proof (cases found)
      case None
      with Inr pos assms show ?thesis
        by (simp add: Deposit_def Let_def set_code_def set_details_def)
    next
      case (Some d)
      with Inr obtain h where h: "redis_client self (account_key (dr_account_id q)) = Some h"
        "f_account_type h = Some (d_account_type d)" "f_balance h = Some (d_balance d)"
        using get_account_data_SomeD by blast
      with pos show ?thesis by auto
    qed
  qed
qed

lemma Withdraw_success:
  assumes "status (fst (Withdraw self q new_context)) = Some OK"
  shows "\<exists>h t b. 0 < wr_amount q \<and> wr_amount q \<le> b
           \<and> redis_client self (account_key (wr_account_id q)) = Some h
           \<and> f_account_type h = Some t \<and> f_balance h = Some b"
proof (cases "wr_amount q \<le> 0")
  case True
  with assms show ?thesis
    by (simp add: Withdraw_invalid set_code_def set_details_def)
next
  case pos: False
  show ?thesis
  proof (cases "get_account_data (redis_client self) (wr_account_id q)")
    case (Inl e)
    with pos assms show ?thesis by (simp add: Withdraw_def Let_def)
  next
    case (Inr found)
    show ?thesis
    proof (cases found)
      case None
      with Inr pos assms show ?thesis
        by (simp add: Withdraw_def Let_def set_code_def set_details_def)
    next
      case (Some d)
      with Inr obtain h where h: "redis_client self (account_key (wr_account_id q)) = Some h"
        "f_account_type h = Some (d_account_type d)" "f_balance h = Some (d_balance d)"
        using get_account_data_SomeD by blast
      from pos have p: "0 < wr_amount q" by simp
      show ?thesis
      proof (cases "d_balance d < wr_amount q")
        case True
        from Withdraw_insufficient [OF p h True, of new_context] assms show ?thesis
          by (simp add: set_code_def set_details_def)
      next
        case False
        with p h show ?thesis by auto
      qed
    qed
  qed
qed

lemma CalculateInterest_success:
  assumes "status (fst (CalculateInterest self q new_context)) = Some OK"
  shows "\<exists>h t b. 0 < ir_annual_interest_rate q
           \<and> redis_client self (account_key (ir_account_id q)) = Some h
           \<and> f_account_type h = Some t \<and> f_balance h = Some b"
proof (cases "ir_annual_interest_rate q \<le> 0")
  case True
  with assms show ?thesis
    by (simp add: CalculateInterest_invalid set_code_def set_details_def)
next
  case pos: False
  show ?thesis
  proof (cases "get_account_data (redis_client self) (ir_account_id q)")
    case (Inl e)
    with pos assms show ?thesis by (simp add: CalculateInterest_def Let_def)
  next
    case (Inr found)
    show ?thesis
    proof (cases found)
      case None
      with Inr pos assms show ?thesis
        by (simp add: CalculateInterest_def Let_def set_code_def set_details_def)
    next
      case (Some d)
      with Inr obtain h where h: "redis_client self (account_key (ir_account_id q)) = Some h"
        "f_account_type h = Some (d_account_type d)" "f_balance h = Some (d_balance d)"
        using get_account_data_SomeD by blast
      with pos show ?thesis by auto
    qed
  qed
qed

text \<open>
  Claim C10. A successful \<^verbatim>\<open>Deposit\<close>, \<^verbatim>\<open>Withdraw\<close> or
  \<^verbatim>\<open>CalculateInterest\<close> on an account leaves the account's type and the record
  under every other key as they were; \<^verbatim>\<open>GetBalance\<close> leaves the whole
  state as it was.
\<close>

theorem only_balance_overwritten:
  "(status (fst (invoke self (DepositRpc d))) = Some OK \<longrightarrow>
      (\<exists>h h'. redis_client self (account_key (dr_account_id d)) = Some h
         \<and> redis_client (snd (invoke self (DepositRpc d))) (account_key (dr_account_id d)) = Some h'
         \<and> f_account_type h' = f_account_type h
         \<and> (\<forall>key. key \<noteq> account_key (dr_account_id d) \<longrightarrow>
               redis_client (snd (invoke self (DepositRpc d))) key = redis_client self key)))
   \<and> (status (fst (invoke self (WithdrawRpc w))) = Some OK \<longrightarrow>
      (\<exists>h h'. redis_client self (account_key (wr_account_id w)) = Some h
         \<and> redis_client (snd (invoke self (WithdrawRpc w))) (account_key (wr_account_id w)) = Some h'
         \<and> f_account_type h' = f_account_type h
         \<and> (\<forall>key. key \<noteq> account_key (wr_account_id w) \<longrightarrow>
               redis_client (snd (invoke self (WithdrawRpc w))) key = redis_client self key)))
   \<and> (status (fst (invoke self (CalculateInterestRpc i))) = Some OK \<longrightarrow>
      (\<exists>h h'. redis_client self (account_key (ir_account_id i)) = Some h
         \<and> redis_client (snd (invoke self (CalculateInterestRpc i))) (account_key (ir_account_id i))
              = Some h'
         \<and> f_account_type h' = f_account_type h
         \<and> (\<forall>key. key \<noteq> account_key (ir_account_id i) \<longrightarrow>
               redis_client (snd (invoke self (CalculateInterestRpc i))) key
                 = redis_client self key)))
   \<and> snd (invoke self (GetBalanceRpc q)) = self"
proof (intro conjI impI)
  assume "status (fst (invoke self (DepositRpc d))) = Some OK"
  then have "status (fst (Deposit self d new_context)) = Some OK"
    by (simp add: invoke_status del: invoke.simps)
  from Deposit_success [OF this]
  obtain h t b where p: "0 < dr_amount d"
    and h: "redis_client self (account_key (dr_account_id d)) = Some h"
      "f_account_type h = Some t" "f_balance h = Some b"
    by blast
  from Deposit_present [OF p h, of new_context] h(1)
  show "\<exists>h h'. redis_client self (account_key (dr_account_id d)) = Some h
         \<and> redis_client (snd (invoke self (DepositRpc d))) (account_key (dr_account_id d)) = Some h'
         \<and> f_account_type h' = f_account_type h
         \<and> (\<forall>key. key \<noteq> account_key (dr_account_id d) \<longrightarrow>
               redis_client (snd (invoke self (DepositRpc d))) key = redis_client self key)"
    by (simp add: invoke_state hset_balance_def hgetall_def del: invoke.simps)
next
  assume "status (fst (invoke self (WithdrawRpc w))) = Some OK"
  then have "status (fst (Withdraw self w new_context)) = Some OK"
    by (simp add: invoke_status del: invoke.simps)
  from Withdraw_success [OF this]
  obtain h t b where p: "0 < wr_amount w" and le: "wr_amount w \<le> b"
    and h: "redis_client self (account_key (wr_account_id w)) = Some h"
      "f_account_type h = Some t" "f_balance h = Some b"
    by blast
  from Withdraw_present [OF p h le, of new_context] h(1)
  show "\<exists>h h'. redis_client self (account_key (wr_account_id w)) = Some h
         \<and> redis_client (snd (invoke self (WithdrawRpc w))) (account_key (wr_account_id w)) = Some h'
         \<and> f_account_type h' = f_account_type h
         \<and> (\<forall>key. key \<noteq> account_key (wr_account_id w) \<longrightarrow>
               redis_client (snd (invoke self (WithdrawRpc w))) key = redis_client self key)"
    by (simp add: invoke_state hset_balance_def hgetall_def del: invoke.simps)
next
  assume "status (fst (invoke self (CalculateInterestRpc i))) = Some OK"
  then have "status (fst (CalculateInterest self i new_context)) = Some OK"
    by (simp add: invoke_status del: invoke.simps)
  from CalculateInterest_success [OF this]
  obtain h t b where p: "0 < ir_annual_interest_rate i"
    and h: "redis_client self (account_key (ir_account_id i)) = Some h"
      "f_account_type h = Some t" "f_balance h = Some b"
    by blast
  from CalculateInterest_present [OF p h, of new_context] h(1)
  show "\<exists>h h'. redis_client self (account_key (ir_account_id i)) = Some h
         \<and> redis_client (snd (invoke self (CalculateInterestRpc i))) (account_key (ir_account_id i))
              = Some h'
         \<and> f_account_type h' = f_account_type h
         \<and> (\<forall>key. key \<noteq> account_key (ir_account_id i) \<longrightarrow>
               redis_client (snd (invoke self (CalculateInterestRpc i))) key
                 = redis_client self key)"
    by (simp add: invoke_state hset_balance_def hgetall_def del: invoke.simps)
next
  show "snd (invoke self (GetBalanceRpc q)) = self"
    by (simp add: invoke_state del: invoke.simps)
qed

theorem only_balance_overwritten_witness:
  "status (fst (invoke (one_account 1000) (DepositRpc \<lparr>dr_account_id = ''A1'', dr_amount = 5\<rparr>)))
     = Some OK
   \<and> status (fst (invoke (one_account 1000) (WithdrawRpc \<lparr>wr_account_id = ''A1'', wr_amount = 5\<rparr>)))
     = Some OK
   \<and> status (fst (invoke (one_account 1000)
        (CalculateInterestRpc \<lparr>ir_account_id = ''A1'', ir_annual_interest_rate = 5\<rparr>)))
     = Some OK
   \<and> (\<exists>h h'. redis_client (one_account 1000) (account_key ''A1'') = Some h
         \<and> redis_client (snd (invoke (one_account 1000)
               (DepositRpc \<lparr>dr_account_id = ''A1'', dr_amount = 5\<rparr>))) (account_key ''A1'') = Some h'
         \<and> f_account_type h' = f_account_type h)
   \<and> (\<exists>h h'. redis_client (one_account 1000) (account_key ''A1'') = Some h
         \<and> redis_client (snd (invoke (one_account 1000)
               (WithdrawRpc \<lparr>wr_account_id = ''A1'', wr_amount = 5\<rparr>))) (account_key ''A1'') = Some h'
         \<and> f_account_type h' = f_account_type h)
   \<and> (\<exists>h h'. redis_client (one_account 1000) (account_key ''A1'') = Some h
         \<and> redis_client (snd (invoke (one_account 1000)
               (CalculateInterestRpc \<lparr>ir_account_id = ''A1'', ir_annual_interest_rate = 5\<rparr>)))
              (account_key ''A1'') = Some h'
         \<and> f_account_type h' = f_account_type h)
   \<and> snd (invoke (one_account 1000) (GetBalanceRpc \<lparr>ar_account_id = ''A1'', ar_account_type = []\<rparr>))
       = one_account 1000"
proof -
  have 1: "status (fst (invoke (one_account 1000)
              (DepositRpc \<lparr>dr_account_id = ''A1'', dr_amount = 5\<rparr>))) = Some OK"
    by (simp add: run_defs)
  have 2: "status (fst (invoke (one_account 1000)
              (WithdrawRpc \<lparr>wr_account_id = ''A1'', wr_amount = 5\<rparr>))) = Some OK"
    by (simp add: run_defs)
  have 3: "status (fst (invoke (one_account 1000)
              (CalculateInterestRpc \<lparr>ir_account_id = ''A1'', ir_annual_interest_rate = 5\<rparr>)))
             = Some OK"
    by (simp add: run_defs)
  from 1 2 3
    only_balance_overwritten [of "one_account 1000"
      "\<lparr>dr_account_id = ''A1'', dr_amount = 5\<rparr>" "\<lparr>wr_account_id = ''A1'', wr_amount = 5\<rparr>"
      "\<lparr>ir_account_id = ''A1'', ir_annual_interest_rate = 5\<rparr>"
      "\<lparr>ar_account_id = ''A1'', ar_account_type = []\<rparr>"]
  show ?thesis by (simp del: invoke.simps) blast
qed


section \<open>Sums over the workers\<close>

lemma sum_list_map_update:
  fixes f :: "'a \<Rightarrow> 'b::comm_monoid_add"
  shows "i < length xs \<Longrightarrow>
    sum_list (map f (xs[i := x])) + f (xs ! i) = sum_list (map f xs) + f x"
proof (induction xs arbitrary: i)
  case Nil
  then show ?case by simp
next
  case (Cons y ys)
  show ?case
  proof (cases i)
    case 0
    then show ?thesis by (simp add: ac_simps)
  next
    case (Suc k)
    with Cons.prems have "k < length ys" by simp
    from Cons.IH [OF this] Suc show ?thesis by (simp add: ac_simps)
  qed
qed

lemma sum_list_map_zero:
  fixes f :: "'a \<Rightarrow> 'b::comm_monoid_add"
  shows "(\<And>x. x \<in> set xs \<Longrightarrow> f x = 0) \<Longrightarrow> sum_list (map f xs) = 0"
  by (induction xs) auto

lemma other_member:
  assumes "t \<in> set (ws[i := x])" and "t \<noteq> x"
  shows "t \<in> set (ws[i := y])"
proof -
  from assms(1) obtain j where j: "j < length ws" "(ws[i := x]) ! j = t"
    by (auto simp: in_set_conv_nth)
  with assms(2) have "j \<noteq> i" by auto
  with j have "(ws[i := y]) ! j = t" by simp
  with j(1) show ?thesis by (auto simp: in_set_conv_nth)
qed

lemma exclusive:
  fixes f :: "'a \<Rightarrow> nat"
  assumes "sum_list (map f ws) \<le> 1" and "i < length ws" and "f (ws ! i) = 1"
    and "f y = 0" and "t \<in> set (ws[i := y])"
  shows "f t = 0"
proof -
  from sum_list_map_update [OF assms(2), of f y] assms(1,3,4)
  have "sum_list (map f (ws[i := y])) = 0" by linarith
  then have "\<forall>n \<in> set (ws[i := y]). f n = 0" by simp
  with assms(5) show ?thesis by blast
qed

section \<open>The locks do their work at every step\<close>

lemma stepE:
  assumes "step w i = Some w'"
  obtains p s where "i < length (workers w)"
    and "deposit_step (shared w) (w_request (workers w ! i)) (w_pc (workers w ! i)) = Some (p, s)"
    and "shared w' = s"
    and "workers w' = (workers w)[i := (workers w ! i)\<lparr>w_pc := p\<rparr>]"
  using assms by (auto simp: step_def split: if_splits option.splits)


lemma dict_count_update:
  assumes "i < length ws"
  shows "dict_count (ws[i := (ws ! i)\<lparr>w_pc := p\<rparr>]) + of_bool (dict_cs (w_pc (ws ! i)))
           = dict_count ws + of_bool (dict_cs p)"
  using sum_list_map_update [OF assms, of "\<lambda>t. of_bool (dict_cs (w_pc t))" "(ws ! i)\<lparr>w_pc := p\<rparr>"]
  by (simp add: dict_count_def)

lemma hold_count_update:
  assumes "i < length ws"
  shows "hold_count l (ws[i := (ws ! i)\<lparr>w_pc := p\<rparr>]) + of_bool (holds (w_pc (ws ! i)) l)
           = hold_count l ws + of_bool (holds p l)"
  using sum_list_map_update [OF assms, of "\<lambda>t. of_bool (holds (w_pc t) l)" "(ws ! i)\<lparr>w_pc := p\<rparr>"]
  by (simp add: hold_count_def)

lemma member_update:
  assumes "t \<in> set (ws[i := x])"
  shows "t = x \<or> t \<in> set ws"
  using assms set_update_subset_insert [of ws i x] by auto

lemma locks_ok_Called_valid:
  assumes ok: "locks_ok w" and i: "i < length (workers w)"
    and pc: "w_pc (workers w ! i) = Called"
    and sh: "shared w' = shared w"
    and ws: "workers w' = (workers w)[i := (workers w ! i)\<lparr>w_pc := Dict_acquire\<rparr>]"
  shows "locks_ok w'"
proof -
  note dc = dict_count_update [OF i, of "Dict_acquire"]
  note hc = hold_count_update [OF i, of _ "Dict_acquire"]
  have mem: "\<And>t. t \<in> set (workers w') \<Longrightarrow>
               t = (workers w ! i)\<lparr>w_pc := Dict_acquire\<rparr> \<or> t \<in> set (workers w)"
    unfolding ws by (rule member_update)
  have old: "workers w ! i \<in> set (workers w)"
    using i by simp
  show ?thesis
    using ok  dc hc pc old
    unfolding locks_ok_def Let_def sh
    apply (intro conjI)
        apply (cases "s_lock_dict_lock (shared w)"; simp add: ws)
       apply simp
      apply (auto dest!: mem)[1]
     apply (auto dest!: mem)[1]
    apply (auto simp: ws nth_list_update)
    done
qed

lemma locks_ok_Called_invalid:
  assumes ok: "locks_ok w" and i: "i < length (workers w)"
    and pc: "w_pc (workers w ! i) = Called"
    and sh: "shared w' = shared w"
    and ws: "workers w' = (workers w)[i := (workers w ! i)\<lparr>w_pc := Finished out\<rparr>]"
  shows "locks_ok w'"
proof -
  note dc = dict_count_update [OF i, of "Finished out"]
  note hc = hold_count_update [OF i, of _ "Finished out"]
  have mem: "\<And>t. t \<in> set (workers w') \<Longrightarrow>
               t = (workers w ! i)\<lparr>w_pc := Finished out\<rparr> \<or> t \<in> set (workers w)"
    unfolding ws by (rule member_update)
  have old: "workers w ! i \<in> set (workers w)"
    using i by simp
  show ?thesis
    using ok  dc hc pc old
    unfolding locks_ok_def Let_def sh
    apply (intro conjI)
        apply (cases "s_lock_dict_lock (shared w)"; simp add: ws)
       apply simp
      apply (auto dest!: mem)[1]
     apply (auto dest!: mem)[1]
    apply (auto simp: ws nth_list_update)
    done
qed

lemma locks_ok_Dict_acquire:
  assumes ok: "locks_ok w" and i: "i < length (workers w)"
    and pc: "w_pc (workers w ! i) = Dict_acquire"
    and extra: "\<not> s_lock_dict_lock (shared w)"
    and sh: "shared w' = (shared w)\<lparr>s_lock_dict_lock := True\<rparr>"
    and ws: "workers w' = (workers w)[i := (workers w ! i)\<lparr>w_pc := Dict_test\<rparr>]"
  shows "locks_ok w'"
proof -
  note dc = dict_count_update [OF i, of "Dict_test"]
  note hc = hold_count_update [OF i, of _ "Dict_test"]
  have mem: "\<And>t. t \<in> set (workers w') \<Longrightarrow>
               t = (workers w ! i)\<lparr>w_pc := Dict_test\<rparr> \<or> t \<in> set (workers w)"
    unfolding ws by (rule member_update)
  have old: "workers w ! i \<in> set (workers w)"
    using i by simp
  show ?thesis
    using ok extra dc hc pc old
    unfolding locks_ok_def Let_def sh
    apply (intro conjI)
        apply (cases "s_lock_dict_lock (shared w)"; simp add: ws)
       apply simp
      apply (auto dest!: mem)[1]
     apply (auto dest!: mem)[1]
    apply (auto simp: ws nth_list_update)
    done
qed

lemma locks_ok_Dict_test_absent:
  assumes ok: "locks_ok w" and i: "i < length (workers w)"
    and pc: "w_pc (workers w ! i) = Dict_test"
    and extra: "s_account_locks (shared w) (dr_account_id (w_request (workers w ! i))) = None"
    and sh: "shared w' = shared w"
    and ws: "workers w' = (workers w)[i := (workers w ! i)\<lparr>w_pc := Dict_insert\<rparr>]"
  shows "locks_ok w'"
proof -
  note dc = dict_count_update [OF i, of "Dict_insert"]
  note hc = hold_count_update [OF i, of _ "Dict_insert"]
  have mem: "\<And>t. t \<in> set (workers w') \<Longrightarrow>
               t = (workers w ! i)\<lparr>w_pc := Dict_insert\<rparr> \<or> t \<in> set (workers w)"
    unfolding ws by (rule member_update)
  have old: "workers w ! i \<in> set (workers w)"
    using i by simp
  show ?thesis
    using ok extra dc hc pc old
    unfolding locks_ok_def Let_def sh
    apply (intro conjI)
        apply (cases "s_lock_dict_lock (shared w)"; simp add: ws)
       apply simp
      apply (auto dest!: mem)[1]
     apply (auto dest!: mem)[1]
    apply (auto simp: ws nth_list_update)
    done
qed

lemma locks_ok_Dict_test_present:
  assumes ok: "locks_ok w" and i: "i < length (workers w)"
    and pc: "w_pc (workers w ! i) = Dict_test"
    and extra: "s_account_locks (shared w) (dr_account_id (w_request (workers w ! i))) \<noteq> None"
    and sh: "shared w' = shared w"
    and ws: "workers w' = (workers w)[i := (workers w ! i)\<lparr>w_pc := Dict_lookup\<rparr>]"
  shows "locks_ok w'"
proof -
  note dc = dict_count_update [OF i, of "Dict_lookup"]
  note hc = hold_count_update [OF i, of _ "Dict_lookup"]
  have mem: "\<And>t. t \<in> set (workers w') \<Longrightarrow>
               t = (workers w ! i)\<lparr>w_pc := Dict_lookup\<rparr> \<or> t \<in> set (workers w)"
    unfolding ws by (rule member_update)
  have old: "workers w ! i \<in> set (workers w)"
    using i by simp
  show ?thesis
    using ok extra dc hc pc old
    unfolding locks_ok_def Let_def sh
    apply (intro conjI)
        apply (cases "s_lock_dict_lock (shared w)"; simp add: ws)
       apply simp
      apply (auto dest!: mem)[1]
     apply (auto dest!: mem)[1]
    apply (auto simp: ws nth_list_update)
    done
qed

lemma locks_ok_Dict_lookup_absent:
  assumes ok: "locks_ok w" and i: "i < length (workers w)"
    and pc: "w_pc (workers w ! i) = Dict_lookup"
    and extra: "s_account_locks (shared w) (dr_account_id (w_request (workers w ! i))) = None"
    and sh: "shared w' = (shared w)\<lparr>s_lock_dict_lock := False\<rparr>"
    and ws: "workers w' = (workers w)[i := (workers w ! i)\<lparr>w_pc := Finished out\<rparr>]"
  shows "locks_ok w'"
proof -
  have old: "workers w ! i \<in> set (workers w)"
    using i by simp
  with ok pc extra have False
    unfolding locks_ok_def Let_def by auto
  then show ?thesis ..
qed

lemma locks_ok_Dict_lookup_present:
  assumes ok: "locks_ok w" and i: "i < length (workers w)"
    and pc: "w_pc (workers w ! i) = Dict_lookup"
    and extra: "s_account_locks (shared w) (dr_account_id (w_request (workers w ! i))) = Some l"
    and sh: "shared w' = shared w"
    and ws: "workers w' = (workers w)[i := (workers w ! i)\<lparr>w_pc := Dict_release l\<rparr>]"
  shows "locks_ok w'"
proof -
  note dc = dict_count_update [OF i, of "Dict_release l"]
  note hc = hold_count_update [OF i, of _ "Dict_release l"]
  have mem: "\<And>t. t \<in> set (workers w') \<Longrightarrow>
               t = (workers w ! i)\<lparr>w_pc := Dict_release l\<rparr> \<or> t \<in> set (workers w)"
    unfolding ws by (rule member_update)
  have old: "workers w ! i \<in> set (workers w)"
    using i by simp
  show ?thesis
    using ok extra dc hc pc old
    unfolding locks_ok_def Let_def sh
    apply (intro conjI)
        apply (cases "s_lock_dict_lock (shared w)"; simp add: ws)
       apply simp
      apply (auto dest!: mem)[1]
     apply (auto dest!: mem)[1]
    apply (auto simp: ws nth_list_update)
    done
qed

lemma locks_ok_Dict_release:
  assumes ok: "locks_ok w" and i: "i < length (workers w)"
    and pc: "w_pc (workers w ! i) = Dict_release l"
    and sh: "shared w' = (shared w)\<lparr>s_lock_dict_lock := False\<rparr>"
    and ws: "workers w' = (workers w)[i := (workers w ! i)\<lparr>w_pc := Lock_acquire l\<rparr>]"
  shows "locks_ok w'"
proof -
  note dc = dict_count_update [OF i, of "Lock_acquire l"]
  note hc = hold_count_update [OF i, of _ "Lock_acquire l"]
  have mem: "\<And>t. t \<in> set (workers w') \<Longrightarrow>
               t = (workers w ! i)\<lparr>w_pc := Lock_acquire l\<rparr> \<or> t \<in> set (workers w)"
    unfolding ws by (rule member_update)
  have old: "workers w ! i \<in> set (workers w)"
    using i by simp
  show ?thesis
    using ok  dc hc pc old
    unfolding locks_ok_def Let_def sh
    apply (intro conjI)
        apply (cases "s_lock_dict_lock (shared w)"; simp add: ws)
       apply simp
      apply (auto dest!: mem)[1]
     apply (auto dest!: mem)[1]
    apply (auto simp: ws nth_list_update)
    done
qed

lemma locks_ok_Lock_acquire:
  assumes ok: "locks_ok w" and i: "i < length (workers w)"
    and pc: "w_pc (workers w ! i) = Lock_acquire l"
    and extra: "l < length (s_locks (shared w))" "\<not> s_locks (shared w) ! l"
    and sh: "shared w' = (shared w)\<lparr>s_locks := (s_locks (shared w))[l := True]\<rparr>"
    and ws: "workers w' = (workers w)[i := (workers w ! i)\<lparr>w_pc := Read_account l\<rparr>]"
  shows "locks_ok w'"
proof -
  note dc = dict_count_update [OF i, of "Read_account l"]
  note hc = hold_count_update [OF i, of _ "Read_account l"]
  have mem: "\<And>t. t \<in> set (workers w') \<Longrightarrow>
               t = (workers w ! i)\<lparr>w_pc := Read_account l\<rparr> \<or> t \<in> set (workers w)"
    unfolding ws by (rule member_update)
  have old: "workers w ! i \<in> set (workers w)"
    using i by simp
  show ?thesis
    using ok extra dc hc pc old
    unfolding locks_ok_def Let_def sh
    apply (intro conjI)
        apply (cases "s_lock_dict_lock (shared w)"; simp add: ws)
       apply simp
      apply (auto dest!: mem)[1]
     apply (auto dest!: mem)[1]
    apply (auto simp: ws nth_list_update)
    done
qed

lemma locks_ok_Read_account_fail:
  assumes ok: "locks_ok w" and i: "i < length (workers w)"
    and pc: "w_pc (workers w ! i) = Read_account l"
    and sh: "shared w' = shared w"
    and ws: "workers w' = (workers w)[i := (workers w ! i)\<lparr>w_pc := Lock_release l out\<rparr>]"
  shows "locks_ok w'"
proof -
  note dc = dict_count_update [OF i, of "Lock_release l out"]
  note hc = hold_count_update [OF i, of _ "Lock_release l out"]
  have mem: "\<And>t. t \<in> set (workers w') \<Longrightarrow>
               t = (workers w ! i)\<lparr>w_pc := Lock_release l out\<rparr> \<or> t \<in> set (workers w)"
    unfolding ws by (rule member_update)
  have old: "workers w ! i \<in> set (workers w)"
    using i by simp
  show ?thesis
    using ok  dc hc pc old
    unfolding locks_ok_def Let_def sh
    apply (intro conjI)
        apply (cases "s_lock_dict_lock (shared w)"; simp add: ws)
       apply simp
      apply (auto dest!: mem)[1]
     apply (auto dest!: mem)[1]
    apply (auto simp: ws nth_list_update)
    done
qed

lemma locks_ok_Read_account_found:
  assumes ok: "locks_ok w" and i: "i < length (workers w)"
    and pc: "w_pc (workers w ! i) = Read_account l"
    and sh: "shared w' = shared w"
    and ws: "workers w' = (workers w)[i := (workers w ! i)\<lparr>w_pc := Write_balance l d\<rparr>]"
  shows "locks_ok w'"
proof -
  note dc = dict_count_update [OF i, of "Write_balance l d"]
  note hc = hold_count_update [OF i, of _ "Write_balance l d"]
  have mem: "\<And>t. t \<in> set (workers w') \<Longrightarrow>
               t = (workers w ! i)\<lparr>w_pc := Write_balance l d\<rparr> \<or> t \<in> set (workers w)"
    unfolding ws by (rule member_update)
  have old: "workers w ! i \<in> set (workers w)"
    using i by simp
  show ?thesis
    using ok  dc hc pc old
    unfolding locks_ok_def Let_def sh
    apply (intro conjI)
        apply (cases "s_lock_dict_lock (shared w)"; simp add: ws)
       apply simp
      apply (auto dest!: mem)[1]
     apply (auto dest!: mem)[1]
    apply (auto simp: ws nth_list_update)
    done
qed

lemma locks_ok_Write_balance:
  assumes ok: "locks_ok w" and i: "i < length (workers w)"
    and pc: "w_pc (workers w ! i) = Write_balance l d"
    and sh: "shared w' = (shared w)\<lparr>s_redis_client := r\<rparr>"
    and ws: "workers w' = (workers w)[i := (workers w ! i)\<lparr>w_pc := Lock_release l out\<rparr>]"
  shows "locks_ok w'"
proof -
  note dc = dict_count_update [OF i, of "Lock_release l out"]
  note hc = hold_count_update [OF i, of _ "Lock_release l out"]
  have mem: "\<And>t. t \<in> set (workers w') \<Longrightarrow>
               t = (workers w ! i)\<lparr>w_pc := Lock_release l out\<rparr> \<or> t \<in> set (workers w)"
    unfolding ws by (rule member_update)
  have old: "workers w ! i \<in> set (workers w)"
    using i by simp
  show ?thesis
    using ok  dc hc pc old
    unfolding locks_ok_def Let_def sh
    apply (intro conjI)
        apply (cases "s_lock_dict_lock (shared w)"; simp add: ws)
       apply simp
      apply (auto dest!: mem)[1]
     apply (auto dest!: mem)[1]
    apply (auto simp: ws nth_list_update)
    done
qed

lemma refers_in_range:
  assumes "locks_ok w" and "t \<in> set (workers w)" and "refers (w_pc t) = Some l"
  shows "l < length (s_locks (shared w))"
proof -
  from assms have "s_account_locks (shared w) (dr_account_id (w_request t)) = Some l"
    unfolding locks_ok_def Let_def by blast
  then have "l \<in> ran (s_account_locks (shared w))" by (rule ranI)
  with assms(1) show ?thesis unfolding locks_ok_def Let_def by blast
qed

lemma locks_ok_Lock_release:
  assumes ok: "locks_ok w" and i: "i < length (workers w)"
    and pc: "w_pc (workers w ! i) = Lock_release l out"
    and sh: "shared w' = (shared w)\<lparr>s_locks := (s_locks (shared w))[l := False]\<rparr>"
    and ws: "workers w' = (workers w)[i := (workers w ! i)\<lparr>w_pc := Finished out\<rparr>]"
  shows "locks_ok w'"
proof -
  note dc = dict_count_update [OF i, of "Finished out"]
  note hc = hold_count_update [OF i, of _ "Finished out"]
  have mem: "\<And>t. t \<in> set (workers w') \<Longrightarrow>
               t = (workers w ! i)\<lparr>w_pc := Finished out\<rparr> \<or> t \<in> set (workers w)"
    unfolding ws by (rule member_update)
  have old: "workers w ! i \<in> set (workers w)"
    using i by simp
  have l: "l < length (s_locks (shared w))"
    using ok old pc by (intro refers_in_range [of w "workers w ! i"]) simp_all
  have counts: "\<forall>k < length (s_locks (shared w)).
                  hold_count k (workers w) = of_bool (s_locks (shared w) ! k)"
    using ok unfolding locks_ok_def Let_def by blast
  have last: "\<forall>k < length (s_locks (shared w)).
          hold_count k (workers w') = of_bool ((s_locks (shared w))[l := False] ! k)"
  proof (intro allI impI)
    fix k
    assume k: "k < length (s_locks (shared w))"
    with counts have c: "hold_count k (workers w) = of_bool (s_locks (shared w) ! k)" by blast
    from hc [of k] pc
    have h: "hold_count k (workers w') + of_bool (k = l) = hold_count k (workers w)"
      by (simp add: ws)
    show "hold_count k (workers w') = of_bool ((s_locks (shared w))[l := False] ! k)"
    proof (cases "k = l")
      case True
      with h c k show ?thesis by (cases "s_locks (shared w) ! l") simp_all
    next
      case False
      with h c k show ?thesis by simp
    qed
  qed
  show ?thesis
    using ok dc hc pc old
    unfolding locks_ok_def Let_def sh
    apply (intro conjI)
        apply (cases "s_lock_dict_lock (shared w)"; simp add: ws)
       apply simp
      apply (auto dest!: mem)[1]
     apply (auto dest!: mem)[1]
    using last apply simp
    done
qed

lemma holds_refers: "holds p k \<Longrightarrow> refers p = Some k"
  by (cases p) simp_all

lemma hold_count_fresh:
  assumes "locks_ok w"
  shows "hold_count (length (s_locks (shared w))) (workers w) = 0"
proof -
  have "\<not> holds (w_pc t) (length (s_locks (shared w)))" if "t \<in> set (workers w)" for t
  proof
    assume "holds (w_pc t) (length (s_locks (shared w)))"
    then have "refers (w_pc t) = Some (length (s_locks (shared w)))" by (rule holds_refers)
    from refers_in_range [OF assms that this] show False by simp
  qed
  then show ?thesis by (simp add: hold_count_def)
qed

lemma dict_cs_alone:
  assumes ok: "locks_ok w" and i: "i < length (workers w)"
    and cs: "dict_cs (w_pc (workers w ! i))"
    and t: "t \<in> set ((workers w)[i := x])" and x: "t \<noteq> x"
  shows "\<not> dict_cs (w_pc t)"
proof -
  let ?f = "\<lambda>t. of_bool (dict_cs (w_pc t)) :: nat"
  let ?y = "(workers w ! i)\<lparr>w_pc := Called\<rparr>"
  from ok have "sum_list (map ?f (workers w)) \<le> 1"
    unfolding locks_ok_def Let_def dict_count_def by simp
  moreover from cs have "?f (workers w ! i) = 1" by simp
  moreover have "?f ?y = 0" by simp
  moreover from t x have "t \<in> set ((workers w)[i := ?y])" by (rule other_member)
  ultimately have "?f t = 0" using i by (intro exclusive [of ?f "workers w" i ?y t])
  then show ?thesis by (simp split: if_splits)
qed

lemma locks_ok_Dict_insert:
  assumes ok: "locks_ok w" and i: "i < length (workers w)"
    and pc: "w_pc (workers w ! i) = Dict_insert"
    and sh: "shared w' =
       (shared w)\<lparr>s_account_locks :=
                    (s_account_locks (shared w))(dr_account_id (w_request (workers w ! i)) \<mapsto>
                       length (s_locks (shared w))),
                  s_locks := s_locks (shared w) @ [False]\<rparr>"
    and ws: "workers w' = (workers w)[i := (workers w ! i)\<lparr>w_pc := Dict_lookup\<rparr>]"
  shows "locks_ok w'"
proof -
  let ?a = "dr_account_id (w_request (workers w ! i))"
  let ?n = "length (s_locks (shared w))"
  let ?x = "(workers w ! i)\<lparr>w_pc := Dict_lookup\<rparr>"
  note dc = dict_count_update [OF i, of Dict_lookup]
  note hc = hold_count_update [OF i, of _ Dict_lookup]
  have mem: "\<And>t. t \<in> set (workers w') \<Longrightarrow> t = ?x \<or> t \<in> set (workers w)"
    unfolding ws by (rule member_update)
  have old: "workers w ! i \<in> set (workers w)"
    using i by simp
  have absent: "s_account_locks (shared w) ?a = None"
    using ok old pc unfolding locks_ok_def Let_def by blast
  have 1: "dict_count (workers w') = of_bool (s_lock_dict_lock (shared w))"
    using ok dc pc unfolding locks_ok_def Let_def by (simp add: ws)
  have 2: "\<forall>l \<in> ran ((s_account_locks (shared w))(?a \<mapsto> ?n)). l < length (s_locks (shared w) @ [False])"
    using ok absent unfolding locks_ok_def Let_def by (auto simp: less_Suc_eq)
  have 3: "\<forall>t \<in> set (workers w'). \<forall>l. refers (w_pc t) = Some l \<longrightarrow>
             ((s_account_locks (shared w))(?a \<mapsto> ?n)) (dr_account_id (w_request t)) = Some l"
  proof (intro ballI allI impI)
    fix t l
    assume t: "t \<in> set (workers w')" and r: "refers (w_pc t) = Some l"
    from mem [OF t] r have "t \<in> set (workers w)" by auto
    with ok r have "s_account_locks (shared w) (dr_account_id (w_request t)) = Some l"
      unfolding locks_ok_def Let_def by blast
    with absent show "((s_account_locks (shared w))(?a \<mapsto> ?n)) (dr_account_id (w_request t)) = Some l"
      by auto
  qed
  have 4: "\<forall>t \<in> set (workers w').
             (w_pc t = Dict_insert \<longrightarrow>
                ((s_account_locks (shared w))(?a \<mapsto> ?n)) (dr_account_id (w_request t)) = None)
           \<and> (w_pc t = Dict_lookup \<longrightarrow>
                ((s_account_locks (shared w))(?a \<mapsto> ?n)) (dr_account_id (w_request t)) \<noteq> None)"
  proof
    fix t
    assume t: "t \<in> set (workers w')"
    show "(w_pc t = Dict_insert \<longrightarrow>
                ((s_account_locks (shared w))(?a \<mapsto> ?n)) (dr_account_id (w_request t)) = None)
           \<and> (w_pc t = Dict_lookup \<longrightarrow>
                ((s_account_locks (shared w))(?a \<mapsto> ?n)) (dr_account_id (w_request t)) \<noteq> None)"
    proof (cases "t = ?x")
      case True
      then show ?thesis by simp
    next
      case False
      from pc have "dict_cs (w_pc (workers w ! i))" by simp
      from dict_cs_alone [OF ok i this t [unfolded ws] False]
      have "\<not> dict_cs (w_pc t)" .
      then show ?thesis by auto
    qed
  qed
  have 5: "\<forall>k < length (s_locks (shared w) @ [False]).
             hold_count k (workers w') = of_bool ((s_locks (shared w) @ [False]) ! k)"
  proof (intro allI impI)
    fix k
    assume k: "k < length (s_locks (shared w) @ [False])"
    from hc [of k] pc have h: "hold_count k (workers w') = hold_count k (workers w)"
      by (simp add: ws)
    show "hold_count k (workers w') = of_bool ((s_locks (shared w) @ [False]) ! k)"
    proof (cases "k < ?n")
      case True
      with ok have "hold_count k (workers w) = of_bool (s_locks (shared w) ! k)"
        unfolding locks_ok_def Let_def by blast
      with h True show ?thesis by (simp add: nth_append)
    next
      case False
      with k have "k = ?n" by simp
      with h hold_count_fresh [OF ok] show ?thesis by simp
    qed
  qed
  from 1 2 3 4 5 show ?thesis
    unfolding locks_ok_def Let_def sh by simp
qed

lemma locks_ok_step:
  assumes ok: "locks_ok w" and st: "step w i = Some w'"
  shows "locks_ok w'"
proof -
  from st obtain p s where i: "i < length (workers w)"
    and d: "deposit_step (shared w) (w_request (workers w ! i)) (w_pc (workers w ! i)) = Some (p, s)"
    and sh: "shared w' = s"
    and ws: "workers w' = (workers w)[i := (workers w ! i)\<lparr>w_pc := p\<rparr>]"
    by (rule stepE)
  show ?thesis
  proof (cases "w_pc (workers w ! i)")
    case Called
    with d sh ws show ?thesis
      by (auto split: if_splits
          intro: locks_ok_Called_valid [OF ok i] locks_ok_Called_invalid [OF ok i])
  next
    case Dict_acquire
    with d sh ws show ?thesis
      by (auto split: if_splits intro: locks_ok_Dict_acquire [OF ok i])
  next
    case Dict_test
    with d sh ws show ?thesis
      by (auto split: if_splits
          intro: locks_ok_Dict_test_absent [OF ok i] locks_ok_Dict_test_present [OF ok i])
  next
    case Dict_insert
    with d sh ws show ?thesis
      by (auto intro: locks_ok_Dict_insert [OF ok i])
  next
    case Dict_lookup
    with d sh ws show ?thesis
      by (auto split: option.splits
          intro: locks_ok_Dict_lookup_absent [OF ok i] locks_ok_Dict_lookup_present [OF ok i])
  next
    case (Dict_release l)
    with d sh ws show ?thesis
      by (auto intro: locks_ok_Dict_release [OF ok i])
  next
    case (Lock_acquire l)
    with d sh ws show ?thesis
      by (auto split: if_splits intro: locks_ok_Lock_acquire [OF ok i])
  next
    case (Read_account l)
    with d sh ws show ?thesis
      by (auto split: sum.splits option.splits
          intro: locks_ok_Read_account_fail [OF ok i] locks_ok_Read_account_found [OF ok i])
  next
    case (Write_balance l a)
    with d obtain out r where "p = Lock_release l out" "s = (shared w)\<lparr>s_redis_client := r\<rparr>"
      by (auto simp: Let_def)
    with sh ws show ?thesis
      by (intro locks_ok_Write_balance [OF ok i Write_balance]) simp_all
  next
    case (Lock_release l out)
    with d sh ws show ?thesis
      by (auto intro: locks_ok_Lock_release [OF ok i])
  next
    case (Finished out)
    with d show ?thesis by simp
  qed
qed

section \<open>The balance follows the deposits at every step\<close>

lemma added_update:
  assumes "i < length ws"
  shows "added a (ws[i := (ws ! i)\<lparr>w_pc := p\<rparr>]) + deposited a (ws ! i)
           = added a ws + deposited a ((ws ! i)\<lparr>w_pc := p\<rparr>)"
  using sum_list_map_update [OF assms, of "deposited a" "(ws ! i)\<lparr>w_pc := p\<rparr>"]
  by (simp add: added_def)

lemma written_Lock_release: "written (Lock_release l out) = written (Finished out)"
  by (cases out) simp_all

lemma balance_ok_quiet:
  assumes ok: "balance_ok a ty b0 w" and i: "i < length (workers w)"
    and redis: "s_redis_client (shared w') = s_redis_client (shared w)"
    and ws: "workers w' = (workers w)[i := (workers w ! i)\<lparr>w_pc := p\<rparr>]"
    and wr: "written p = written (w_pc (workers w ! i))"
    and nw: "\<And>l d. p = Write_balance l d \<Longrightarrow> dr_account_id (w_request (workers w ! i)) = a
               \<Longrightarrow> d_balance d = b0 + added a (workers w)"
  shows "balance_ok a ty b0 w'"
proof -
  from added_update [OF i, of a p] wr have tot: "added a (workers w') = added a (workers w)"
    by (simp add: ws deposited_def split: if_splits)
  have mem: "\<And>t. t \<in> set (workers w') \<Longrightarrow>
               t = (workers w ! i)\<lparr>w_pc := p\<rparr> \<or> t \<in> set (workers w)"
    unfolding ws by (rule member_update)
  from ok have 1: "s_redis_client (shared w') (account_key a)
        = Some \<lparr>f_account_type = Some ty, f_balance = Some (b0 + added a (workers w'))\<rparr>"
    unfolding balance_ok_def Let_def by (simp add: redis tot)
  have 2: "\<forall>t \<in> set (workers w'). \<forall>l d.
             w_pc t = Write_balance l d \<and> dr_account_id (w_request t) = a \<longrightarrow>
             d_balance d = b0 + added a (workers w')"
  proof (intro ballI allI impI)
    fix t l d
    assume t: "t \<in> set (workers w')"
      and w: "w_pc t = Write_balance l d \<and> dr_account_id (w_request t) = a"
    from mem [OF t] show "d_balance d = b0 + added a (workers w')"
    proof
      assume "t = (workers w ! i)\<lparr>w_pc := p\<rparr>"
      with w nw [of l d] tot show ?thesis by simp
    next
      assume "t \<in> set (workers w)"
      with ok w tot show ?thesis unfolding balance_ok_def Let_def by auto
    qed
  qed
  from 1 2 show ?thesis unfolding balance_ok_def Let_def by simp
qed

lemma holds_alone:
  assumes ok: "locks_ok w" and i: "i < length (workers w)"
    and h: "holds (w_pc (workers w ! i)) l"
    and t: "t \<in> set ((workers w)[i := x])" and x: "t \<noteq> x"
  shows "\<not> holds (w_pc t) l"
proof -
  let ?f = "\<lambda>t. of_bool (holds (w_pc t) l) :: nat"
  let ?y = "(workers w ! i)\<lparr>w_pc := Called\<rparr>"
  from i have "workers w ! i \<in> set (workers w)" by simp
  from refers_in_range [OF ok this holds_refers [OF h]]
  have "l < length (s_locks (shared w))" .
  with ok have "sum_list (map ?f (workers w)) \<le> 1"
    unfolding locks_ok_def Let_def hold_count_def by simp
  moreover from h have "?f (workers w ! i) = 1" by simp
  moreover have "?f ?y = 0" by simp
  moreover from t x have "t \<in> set ((workers w)[i := ?y])" by (rule other_member)
  ultimately have "?f t = 0" using i by (intro exclusive [of ?f "workers w" i ?y t])
  then show ?thesis by (simp split: if_splits)
qed

lemma balance_ok_Write_balance:
  assumes ok: "balance_ok a ty b0 w" and lk: "locks_ok w" and i: "i < length (workers w)"
    and pc: "w_pc (workers w ! i) = Write_balance l d"
    and sh: "shared w' = (shared w)\<lparr>s_redis_client :=
                hset_balance (s_redis_client (shared w))
                  (account_key (dr_account_id (w_request (workers w ! i))))
                  (d_balance d + dr_amount (w_request (workers w ! i)))\<rparr>"
    and ws: "workers w' = (workers w)[i := (workers w ! i)\<lparr>w_pc := Lock_release l (Return r new_context)\<rparr>]"
  shows "balance_ok a ty b0 w'"
proof -
  let ?q = "w_request (workers w ! i)"
  let ?x = "(workers w ! i)\<lparr>w_pc := Lock_release l (Return r new_context)\<rparr>"
  have old: "workers w ! i \<in> set (workers w)"
    using i by simp
  have mem: "\<And>t. t \<in> set (workers w') \<Longrightarrow> t = ?x \<or> t \<in> set (workers w)"
    unfolding ws by (rule member_update)
  from ok have K: "s_redis_client (shared w) (account_key a)
        = Some \<lparr>f_account_type = Some ty, f_balance = Some (b0 + added a (workers w))\<rparr>"
    and W: "\<forall>t \<in> set (workers w). \<forall>l d.
             w_pc t = Write_balance l d \<and> dr_account_id (w_request t) = a \<longrightarrow>
             d_balance d = b0 + added a (workers w)"
    unfolding balance_ok_def Let_def by simp_all
  show ?thesis
  proof (cases "dr_account_id ?q = a")
    case False
    from added_update [OF i, of a "Lock_release l (Return r new_context)"] False
    have tot: "added a (workers w') = added a (workers w)"
      by (simp add: ws deposited_def)
    from False have "account_key a \<noteq> account_key (dr_account_id ?q)"
      by (simp add: account_key_def)
    with K have 1: "s_redis_client (shared w') (account_key a)
        = Some \<lparr>f_account_type = Some ty, f_balance = Some (b0 + added a (workers w'))\<rparr>"
      by (simp add: sh tot hset_balance_other)
    have 2: "\<forall>t \<in> set (workers w'). \<forall>l d.
             w_pc t = Write_balance l d \<and> dr_account_id (w_request t) = a \<longrightarrow>
             d_balance d = b0 + added a (workers w')"
      using W tot by (auto dest!: mem)
    from 1 2 show ?thesis unfolding balance_ok_def Let_def by simp
  next
    case True
    from W old pc True have d: "d_balance d = b0 + added a (workers w)" by blast
    from added_update [OF i, of a "Lock_release l (Return r new_context)"] True pc
    have tot: "added a (workers w') = added a (workers w) + dr_amount ?q"
      by (simp add: ws deposited_def new_context_def)
    from K True d have 1: "s_redis_client (shared w') (account_key a)
        = Some \<lparr>f_account_type = Some ty, f_balance = Some (b0 + added a (workers w'))\<rparr>"
      by (simp add: sh tot hset_balance_same add.assoc)
    have 2: "\<forall>t \<in> set (workers w'). \<forall>l d.
             w_pc t = Write_balance l d \<and> dr_account_id (w_request t) = a \<longrightarrow>
             d_balance d = b0 + added a (workers w')"
    proof (intro ballI allI impI)
      fix t l' d'
      assume t: "t \<in> set (workers w')"
        and w: "w_pc t = Write_balance l' d' \<and> dr_account_id (w_request t) = a"
      then have ne: "t \<noteq> ?x" by auto
      with mem [OF t] have tw: "t \<in> set (workers w)" by blast
      from lk tw w have "s_account_locks (shared w) a = Some l'"
        unfolding locks_ok_def Let_def by auto
      moreover from lk old pc True have "s_account_locks (shared w) a = Some l"
        unfolding locks_ok_def Let_def by auto
      ultimately have "l' = l" by simp
      from pc have "holds (w_pc (workers w ! i)) l" by simp
      from holds_alone [OF lk i this t [unfolded ws] ne] w \<open>l' = l\<close>
      show "d_balance d' = b0 + added a (workers w')" by simp
    qed
    from 1 2 show ?thesis unfolding balance_ok_def Let_def by simp
  qed
qed

lemma balance_ok_step:
  assumes ok: "balance_ok a ty b0 w" and lk: "locks_ok w" and st: "step w i = Some w'"
  shows "balance_ok a ty b0 w'"
proof -
  from st obtain p s where i: "i < length (workers w)"
    and d: "deposit_step (shared w) (w_request (workers w ! i)) (w_pc (workers w ! i)) = Some (p, s)"
    and sh: "shared w' = s"
    and ws: "workers w' = (workers w)[i := (workers w ! i)\<lparr>w_pc := p\<rparr>]"
    by (rule stepE)
  note quiet = balance_ok_quiet [OF ok i _ ws, unfolded sh]
  show ?thesis
  proof (cases "w_pc (workers w ! i)")
    case Called
    with d show ?thesis
      by (intro quiet) (auto simp: set_code_def set_details_def split: if_splits)
  next
    case Dict_acquire
    with d show ?thesis
      by (intro quiet) (auto split: if_splits)
  next
    case Dict_test
    with d show ?thesis
      by (intro quiet) (auto split: if_splits)
  next
    case Dict_insert
    with d show ?thesis
      by (intro quiet) auto
  next
    case Dict_lookup
    with d show ?thesis
      by (intro quiet) (auto split: option.splits)
  next
    case (Dict_release l)
    with d show ?thesis
      by (intro quiet) auto
  next
    case (Lock_acquire l)
    with d show ?thesis
      by (intro quiet) (auto split: if_splits)
  next
    case (Read_account l)
    from ok have K: "s_redis_client (shared w) (account_key a)
        = Some \<lparr>f_account_type = Some ty, f_balance = Some (b0 + added a (workers w))\<rparr>"
      unfolding balance_ok_def Let_def by simp
    have rd: "d_balance d' = b0 + added a (workers w)"
      if "get_account_data (s_redis_client (shared w)) a = Inr (Some d')" for d'
      using get_account_data_SomeD [OF that] K by auto
    from Read_account d show ?thesis
      by (intro quiet) (auto simp: set_code_def set_details_def new_context_def rd
          split: sum.splits option.splits)
  next
    case (Write_balance l acc)
    with d have p: "p = Lock_release l
              (Return \<lparr>t_account_id = dr_account_id (w_request (workers w ! i)),
                       t_message = [Lit ''Successfully deposited $'',
                                    Fixed 2 (dr_amount (w_request (workers w ! i)))],
                       t_balance = d_balance acc + dr_amount (w_request (workers w ! i))\<rparr>
                 new_context)"
      and s: "s = (shared w)\<lparr>s_redis_client :=
                hset_balance (s_redis_client (shared w))
                  (account_key (dr_account_id (w_request (workers w ! i))))
                  (d_balance acc + dr_amount (w_request (workers w ! i)))\<rparr>"
      by (simp_all add: Let_def)
    show ?thesis
      by (rule balance_ok_Write_balance [OF ok lk i Write_balance sh [unfolded s] ws [unfolded p]])
  next
    case (Lock_release l out)
    with d show ?thesis
      by (intro quiet) (auto simp: written_Lock_release)
  next
    case (Finished out)
    with d show ?thesis by simp
  qed
qed

section \<open>No deposit of an amount above zero is turned away\<close>

lemma served_step:
  assumes ok: "served a w" and bal: "balance_ok a ty b0 w" and lk: "locks_ok w"
    and st: "step w i = Some w'"
  shows "served a w'"
proof -
  from st obtain p s where i: "i < length (workers w)"
    and d: "deposit_step (shared w) (w_request (workers w ! i)) (w_pc (workers w ! i)) = Some (p, s)"
    and sh: "shared w' = s"
    and ws: "workers w' = (workers w)[i := (workers w ! i)\<lparr>w_pc := p\<rparr>]"
    by (rule stepE)
  let ?q = "w_request (workers w ! i)"
  have old: "workers w ! i \<in> set (workers w)"
    using i by simp
  have mem: "\<And>t. t \<in> set (workers w') \<Longrightarrow>
               t = (workers w ! i)\<lparr>w_pc := p\<rparr> \<or> t \<in> set (workers w)"
    unfolding ws by (rule member_update)
  from ok old have o1: "dr_account_id ?q = a \<and> 0 < dr_amount ?q \<and> leaving (w_pc (workers w ! i))
           \<longrightarrow> written (w_pc (workers w ! i))"
    and o2: "checked (w_pc (workers w ! i)) \<or> written (w_pc (workers w ! i)) \<longrightarrow> 0 < dr_amount ?q"
    unfolding served_def by blast+
  have new: "(dr_account_id ?q = a \<and> 0 < dr_amount ?q \<and> leaving p \<longrightarrow> written p)
           \<and> (checked p \<or> written p \<longrightarrow> 0 < dr_amount ?q)"
  proof (cases "w_pc (workers w ! i)")
    case Called
    with d show ?thesis by (auto simp: set_code_def set_details_def split: if_splits)
  next
    case Dict_acquire
    with d o2 show ?thesis by (auto split: if_splits)
  next
    case Dict_test
    with d o2 show ?thesis by (auto split: if_splits)
  next
    case Dict_insert
    with d o2 show ?thesis by auto
  next
    case Dict_lookup
    with lk old have "s_account_locks (shared w) (dr_account_id ?q) \<noteq> None"
      unfolding locks_ok_def Let_def by blast
    with Dict_lookup d o2 show ?thesis by (auto split: option.splits)
  next
    case (Dict_release l)
    with d o2 show ?thesis by auto
  next
    case (Lock_acquire l)
    with d o2 show ?thesis by (auto split: if_splits)
  next
    case (Read_account l)
    from bal have K: "s_redis_client (shared w) (account_key a)
        = Some \<lparr>f_account_type = Some ty, f_balance = Some (b0 + added a (workers w))\<rparr>"
      unfolding balance_ok_def Let_def by simp
    have "get_account_data (s_redis_client (shared w)) a
        = Inr (Some \<lparr>d_account_id = a, d_account_type = ty, d_balance = b0 + added a (workers w)\<rparr>)"
      using K by (simp add: get_account_data_def hgetall_def empty_hash_def)
    with Read_account d o2 show ?thesis
      by (auto simp: set_code_def set_details_def split: sum.splits option.splits)
  next
    case (Write_balance l acc)
    with d o2 show ?thesis by (auto simp: Let_def new_context_def)
  next
    case (Lock_release l out)
    with d o1 o2 show ?thesis by (auto simp: written_Lock_release)
  next
    case (Finished out)
    with d show ?thesis by simp
  qed
  show ?thesis
    unfolding served_def
  proof
    fix t
    assume t: "t \<in> set (workers w')"
    from mem [OF t]
    show "(dr_account_id (w_request t) = a \<and> 0 < dr_amount (w_request t) \<and> leaving (w_pc t)
             \<longrightarrow> written (w_pc t))
        \<and> (checked (w_pc t) \<or> written (w_pc t) \<longrightarrow> 0 < dr_amount (w_request t))"
    proof
      assume "t = (workers w ! i)\<lparr>w_pc := p\<rparr>"
      with new show ?thesis by simp
    next
      assume "t \<in> set (workers w)"
      with ok show ?thesis unfolding served_def by blast
    qed
  qed
qed

section \<open>Along an interleaving\<close>

lemma sound_step:
  "sound a ty b0 w \<Longrightarrow> step w i = Some w' \<Longrightarrow> sound a ty b0 w'"
  unfolding sound_def
  using locks_ok_step balance_ok_step served_step by blast

lemma sound_exec:
  "sound a ty b0 w \<Longrightarrow> exec w sched = Some w' \<Longrightarrow> sound a ty b0 w'"
proof (induction sched arbitrary: w)
  case Nil
  then show ?case by simp
next
  case (Cons i sched)
  from Cons.prems(2) obtain w1 where 1: "step w i = Some w1" and 2: "exec w1 sched = Some w'"
    by (auto split: option.splits)
  from sound_step [OF Cons.prems(1) 1] have "sound a ty b0 w1" .
  from Cons.IH [OF this 2] show ?case .
qed

lemma sound_spawn:
  assumes "idle s"
    and "s_redis_client s (account_key a) = Some \<lparr>f_account_type = Some ty, f_balance = Some b0\<rparr>"
  shows "sound a ty b0 (spawn s qs)"
proof -
  have pcs: "\<And>t. t \<in> set (workers (spawn s qs)) \<Longrightarrow> w_pc t = Called"
    by (auto simp: spawn_def)
  have dc: "dict_count (workers (spawn s qs)) = 0"
    using pcs by (simp add: dict_count_def)
  have hc: "\<And>l. hold_count l (workers (spawn s qs)) = 0"
    using pcs by (simp add: hold_count_def)
  have ad: "added a (workers (spawn s qs)) = 0"
    unfolding added_def by (rule sum_list_map_zero) (simp add: pcs deposited_def)
  have sh: "shared (spawn s qs) = s"
    by (simp add: spawn_def)
  from assms(1) have free: "\<And>l. l < length (s_locks s) \<Longrightarrow> \<not> s_locks s ! l"
    by (simp add: idle_def list_all_length)
  have "locks_ok (spawn s qs)"
    unfolding locks_ok_def Let_def sh
    using assms(1) dc hc pcs free by (auto simp: idle_def)
  moreover have "balance_ok a ty b0 (spawn s qs)"
    unfolding balance_ok_def Let_def sh
    using assms(2) ad pcs by auto
  moreover have "served a (spawn s qs)"
    unfolding served_def using pcs by auto
  ultimately show ?thesis unfolding sound_def by simp
qed

lemma step_requests:
  assumes "step w i = Some w'"
  shows "map w_request (workers w') = map w_request (workers w)"
proof -
  from assms obtain p s where i: "i < length (workers w)"
    and ws: "workers w' = (workers w)[i := (workers w ! i)\<lparr>w_pc := p\<rparr>]"
    by (rule stepE)
  show ?thesis
    unfolding ws by (simp add: map_update list_update_same_conv i)
qed

lemma exec_requests:
  "exec w sched = Some w' \<Longrightarrow> map w_request (workers w') = map w_request (workers w)"
proof (induction sched arbitrary: w)
  case Nil
  then show ?case by simp
next
  case (Cons i sched)
  from Cons.prems obtain w1 where 1: "step w i = Some w1" and 2: "exec w1 sched = Some w'"
    by (auto split: option.splits)
  from Cons.IH [OF 2] step_requests [OF 1] show ?case by simp
qed

lemma finished_leaving: "finished p \<Longrightarrow> leaving p"
  by (cases p) simp_all

lemma added_all_finished:
  assumes "served a w" and "all_finished w"
  shows "added a (workers w) = sum_list (map (credit a) (map w_request (workers w)))"
proof -
  have "deposited a t = credit a (w_request t)" if t: "t \<in> set (workers w)" for t
  proof -
    from assms(2) t have "finished (w_pc t)"
      by (simp add: all_finished_def list_all_iff)
    then have "leaving (w_pc t)" by (rule finished_leaving)
    with assms(1) t show ?thesis
      unfolding served_def deposited_def credit_def by auto
  qed
  then show ?thesis
    unfolding added_def by (simp add: comp_def cong: map_cong)
qed

lemma final_balance:
  assumes "idle s"
    and "s_redis_client s (account_key a) = Some \<lparr>f_account_type = Some ty, f_balance = Some b0\<rparr>"
    and "exec (spawn s qs) sched = Some w" and "all_finished w"
  shows "s_redis_client (shared w) (account_key a)
           = Some \<lparr>f_account_type = Some ty, f_balance = Some (b0 + sum_list (map (credit a) qs))\<rparr>"
proof -
  from sound_exec [OF sound_spawn [OF assms(1,2)] assms(3)]
  have snd: "sound a ty b0 w" .
  then have "s_redis_client (shared w) (account_key a)
           = Some \<lparr>f_account_type = Some ty, f_balance = Some (b0 + added a (workers w))\<rparr>"
    unfolding sound_def balance_ok_def Let_def by simp
  moreover from snd assms(4)
  have "added a (workers w) = sum_list (map (credit a) (map w_request (workers w)))"
    unfolding sound_def by (intro added_all_finished) simp_all
  moreover from exec_requests [OF assms(3)]
  have "map w_request (workers w) = qs"
    by (simp add: spawn_def comp_def)
  ultimately show ?thesis by simp
qed

section \<open>Every interleaving ends\<close>

lemma deposit_step_remaining:
  "deposit_step s q p = Some (p', s') \<Longrightarrow> remaining p' < remaining p"
  by (cases p) (auto simp: Let_def split: if_splits option.splits sum.splits)

lemma step_work_left:
  assumes "step w i = Some w'"
  shows "work_left w' < work_left w"
proof -
  from assms obtain p s where i: "i < length (workers w)"
    and d: "deposit_step (shared w) (w_request (workers w ! i)) (w_pc (workers w ! i)) = Some (p, s)"
    and ws: "workers w' = (workers w)[i := (workers w ! i)\<lparr>w_pc := p\<rparr>]"
    by (rule stepE)
  from sum_list_map_update [OF i, of "\<lambda>t. remaining (w_pc t)" "(workers w ! i)\<lparr>w_pc := p\<rparr>"]
  have "work_left w' + remaining (w_pc (workers w ! i)) = work_left w + remaining p"
    by (simp add: work_left_def ws)
  with deposit_step_remaining [OF d] show ?thesis by linarith
qed

lemma exec_work_left:
  "exec w sched = Some w' \<Longrightarrow> work_left w' + length sched \<le> work_left w"
proof (induction sched arbitrary: w)
  case Nil
  then show ?case by simp
next
  case (Cons i sched)
  from Cons.prems obtain w1 where 1: "step w i = Some w1" and 2: "exec w1 sched = Some w'"
    by (auto split: option.splits)
  from Cons.IH [OF 2] step_work_left [OF 1] show ?case by simp
qed

lemma work_left_spawn: "work_left (spawn s qs) = 10 * length qs"
  by (induction qs) (simp_all add: work_left_def spawn_def)

lemma dict_cs_moves: "dict_cs p \<Longrightarrow> deposit_step s q p \<noteq> None"
  by (cases p) (auto split: option.splits)

lemma holds_moves: "holds p l \<Longrightarrow> deposit_step s q p \<noteq> None"
  by (cases p) (auto simp: Let_def split: option.splits sum.splits)

lemma step_moves:
  "i < length (workers w) \<Longrightarrow>
   deposit_step (shared w) (w_request (workers w ! i)) (w_pc (workers w ! i)) \<noteq> None \<Longrightarrow>
   \<exists>w'. step w i = Some w'"
  by (auto simp: step_def split: option.splits)

lemma some_counted:
  fixes f :: "'a \<Rightarrow> nat"
  assumes "sum_list (map f ws) \<noteq> 0"
  shows "\<exists>j < length ws. f (ws ! j) \<noteq> 0"
proof -
  from assms obtain x where "x \<in> set ws" "f x \<noteq> 0" by auto
  then show ?thesis by (auto simp: in_set_conv_nth)
qed

lemma some_worker_moves:
  assumes lk: "locks_ok w" and nf: "\<not> all_finished w"
  shows "\<exists>i w'. step w i = Some w'"
proof -
  from nf obtain i where i: "i < length (workers w)" and ni: "\<not> finished (w_pc (workers w ! i))"
    by (auto simp: all_finished_def list_all_length)
  let ?s = "shared w"
  let ?q = "w_request (workers w ! i)"
  have old: "workers w ! i \<in> set (workers w)"
    using i by simp
  show ?thesis
  proof (cases "deposit_step ?s ?q (w_pc (workers w ! i))")
    case (Some r)
    then show ?thesis using step_moves [OF i] by auto
  next
    case None
    then consider (dict) "w_pc (workers w ! i) = Dict_acquire" "s_lock_dict_lock ?s"
      | (lock) l where "w_pc (workers w ! i) = Lock_acquire l"
          "\<not> (l < length (s_locks ?s) \<and> \<not> s_locks ?s ! l)"
      using ni by (cases "w_pc (workers w ! i)")
        (auto simp: Let_def split: if_splits option.splits sum.splits)
    then show ?thesis
    proof cases
      case dict
      with lk have "sum_list (map (\<lambda>t. of_bool (dict_cs (w_pc t))) (workers w)) \<noteq> (0::nat)"
        unfolding locks_ok_def Let_def dict_count_def by simp
      from some_counted [OF this] obtain j where j: "j < length (workers w)"
        and "dict_cs (w_pc (workers w ! j))"
        by (auto split: if_splits)
      from dict_cs_moves [OF this(2)] step_moves [OF j] show ?thesis by blast
    next
      case lock
      from refers_in_range [OF lk old, of l] lock(1)
      have l: "l < length (s_locks ?s)" by simp
      with lock(2) have "s_locks ?s ! l" by simp
      with lk l have "sum_list (map (\<lambda>t. of_bool (holds (w_pc t) l)) (workers w)) \<noteq> (0::nat)"
        unfolding locks_ok_def Let_def hold_count_def by simp
      from some_counted [OF this] obtain j where j: "j < length (workers w)"
        and "holds (w_pc (workers w ! j)) l"
        by (auto split: if_splits)
      from holds_moves [OF this(2)] step_moves [OF j] show ?thesis by blast
    qed
  qed
qed

lemma exec_append:
  "exec w (xs @ ys) = (case exec w xs of None \<Rightarrow> None | Some w' \<Rightarrow> exec w' ys)"
  by (induction xs arbitrary: w) (auto split: option.splits)

lemma can_finish:
  "locks_ok w \<Longrightarrow> \<exists>sched w'. exec w sched = Some w' \<and> all_finished w'"
proof (induction "work_left w" arbitrary: w rule: less_induct)
  case less
  show ?case
  proof (cases "all_finished w")
    case True
    then have "exec w [] = Some w \<and> all_finished w" by simp
    then show ?thesis by blast
  next
    case False
    from some_worker_moves [OF less.prems False]
    obtain i w1 where 1: "step w i = Some w1" by blast
    from locks_ok_step [OF less.prems 1] have "locks_ok w1" .
    from less.hyps [OF step_work_left [OF 1] this]
    obtain sched w' where "exec w1 sched = Some w'" "all_finished w'" by blast
    with 1 have "exec w (i # sched) = Some w' \<and> all_finished w'" by simp
    then show ?thesis by blast
  qed
qed

section \<open>One worker alone does what \<^verbatim>\<open>Deposit\<close> does\<close>

lemma idle_free: "idle s \<Longrightarrow> l < length (s_locks s) \<Longrightarrow> \<not> s_locks s ! l"
  by (simp add: idle_def list_all_length)

lemma idle_range: "idle s \<Longrightarrow> s_account_locks s a = Some l \<Longrightarrow> l < length (s_locks s)"
  by (auto simp: idle_def ran_def)

lemma list_update_free: "l < length L \<Longrightarrow> \<not> L ! l \<Longrightarrow> L[l := False] = L"
  by (simp add: list_update_same_conv)

lemma Deposit_locks:
  "\<not> dr_amount q \<le> 0 \<Longrightarrow>
     account_locks (snd (Deposit self q c)) = insert (dr_account_id q) (account_locks self)"
  by (auto simp: Deposit_def get_account_lock_def Let_def split: sum.splits option.splits)

lemma critical_section:
  assumes "\<not> dr_amount q \<le> 0"
  shows "\<exists>sched. exec \<lparr>shared = s1, workers = [\<lparr>w_request = q, w_pc = Read_account l\<rparr>]\<rparr> sched
           = Some \<lparr>shared = s1\<lparr>s_redis_client :=
                               redis_client (snd (Deposit \<lparr>redis_client = s_redis_client s1,
                                                          account_locks = A\<rparr> q new_context)),
                             s_locks := (s_locks s1)[l := False]\<rparr>,
                   workers = [\<lparr>w_request = q,
                               w_pc = Finished (fst (Deposit \<lparr>redis_client = s_redis_client s1,
                                                             account_locks = A\<rparr> q new_context))\<rparr>]\<rparr>"
proof (cases "get_account_data (s_redis_client s1) (dr_account_id q)")
  case (Inl e)
  with assms show ?thesis
    by (intro exI [of _ "[0, 0]"]) (simp add: step_def Deposit_def get_account_lock_def Let_def)
next
  case (Inr found)
  show ?thesis
  proof (cases found)
    case None
    with Inr assms show ?thesis
      by (intro exI [of _ "[0, 0]"]) (simp add: step_def Deposit_def get_account_lock_def Let_def)
  next
    case (Some d)
    with Inr assms show ?thesis
      by (intro exI [of _ "[0, 0, 0]"]) (simp add: step_def Deposit_def get_account_lock_def Let_def)
  qed
qed

lemma worker_alone:
  assumes "idle s"
  shows "\<exists>sched w. exec (spawn s [q]) sched = Some w
           \<and> workers w = [\<lparr>w_request = q, w_pc = Finished (fst (Deposit (servicer_of s) q new_context))\<rparr>]
           \<and> servicer_of (shared w) = snd (Deposit (servicer_of s) q new_context)
           \<and> idle (shared w)"
proof (cases "dr_amount q \<le> 0")
  case True
  with assms have "exec (spawn s [q]) [0] = Some \<lparr>shared = s, workers = [\<lparr>w_request = q, w_pc = Finished (fst (Deposit (servicer_of s) q new_context))\<rparr>]\<rparr>"
    by (simp add: spawn_def step_def Deposit_def)
  moreover from True have "servicer_of s = snd (Deposit (servicer_of s) q new_context)"
    by (simp add: Deposit_def)
  ultimately show ?thesis using assms by (intro exI [of _ "[0]"]) simp
next
  case pos: False
  from assms have nl: "\<not> s_lock_dict_lock s" by (simp add: idle_def)
  let ?D = "Deposit (servicer_of s) q new_context"
  have same: "snd ?D = \<lparr>redis_client = redis_client (snd ?D),
                         account_locks = insert (dr_account_id q) (dom (s_account_locks s))\<rparr>"
    using Deposit_locks [OF pos, of "servicer_of s" new_context]
    by (cases "snd ?D") (simp add: servicer_of_def)
  show ?thesis
  proof (cases "s_account_locks s (dr_account_id q)")
    case None
    let ?n = "length (s_locks s)"
    let ?s1 = "s\<lparr>s_account_locks := (s_account_locks s)(dr_account_id q \<mapsto> ?n),
                 s_locks := s_locks s @ [True]\<rparr>"
    have pre: "exec (spawn s [q]) [0, 0, 0, 0, 0, 0, 0]
                 = Some \<lparr>shared = ?s1, workers = [\<lparr>w_request = q, w_pc = Read_account ?n\<rparr>]\<rparr>"
      using pos nl None by (simp add: spawn_def step_def domIff)
    from critical_section [OF pos, of ?s1 ?n "dom (s_account_locks s)"]
    obtain sched where cs: "exec \<lparr>shared = ?s1, workers = [\<lparr>w_request = q, w_pc = Read_account ?n\<rparr>]\<rparr> sched
        = Some \<lparr>shared = ?s1\<lparr>s_redis_client := redis_client (snd ?D),
                             s_locks := (s_locks ?s1)[?n := False]\<rparr>,
                workers = [\<lparr>w_request = q, w_pc = Finished (fst ?D)\<rparr>]\<rparr>"
      unfolding servicer_of_def by auto
    let ?w = "\<lparr>shared = ?s1\<lparr>s_redis_client := redis_client (snd ?D),
                             s_locks := (s_locks ?s1)[?n := False]\<rparr>,
                workers = [\<lparr>w_request = q, w_pc = Finished (fst ?D)\<rparr>]\<rparr>"
    have run: "exec (spawn s [q]) ([0, 0, 0, 0, 0, 0, 0] @ sched) = Some ?w"
      using pre cs by (simp only: exec_append option.case)
    have st: "servicer_of (shared ?w) = snd ?D"
      by (subst same) (simp add: servicer_of_def)
    have id: "idle (shared ?w)"
      using assms None by (auto simp: idle_def ran_def less_Suc_eq)
    from run st id show ?thesis by (intro exI conjI) (assumption, simp, assumption+)
  next
    case (Some l)
    from idle_range [OF assms Some] have l: "l < length (s_locks s)" .
    from idle_free [OF assms l] have free: "\<not> s_locks s ! l" .
    let ?s1 = "s\<lparr>s_locks := (s_locks s)[l := True]\<rparr>"
    have pre: "exec (spawn s [q]) [0, 0, 0, 0, 0, 0]
                 = Some \<lparr>shared = ?s1, workers = [\<lparr>w_request = q, w_pc = Read_account l\<rparr>]\<rparr>"
      using pos nl Some l free by (simp add: spawn_def step_def domIff)
    from critical_section [OF pos, of ?s1 l "dom (s_account_locks s)"]
    obtain sched where cs: "exec \<lparr>shared = ?s1, workers = [\<lparr>w_request = q, w_pc = Read_account l\<rparr>]\<rparr> sched
        = Some \<lparr>shared = ?s1\<lparr>s_redis_client := redis_client (snd ?D),
                             s_locks := (s_locks ?s1)[l := False]\<rparr>,
                workers = [\<lparr>w_request = q, w_pc = Finished (fst ?D)\<rparr>]\<rparr>"
      unfolding servicer_of_def by auto
    let ?w = "\<lparr>shared = ?s1\<lparr>s_redis_client := redis_client (snd ?D),
                             s_locks := (s_locks ?s1)[l := False]\<rparr>,
                workers = [\<lparr>w_request = q, w_pc = Finished (fst ?D)\<rparr>]\<rparr>"
    have run: "exec (spawn s [q]) ([0, 0, 0, 0, 0, 0] @ sched) = Some ?w"
      using pre cs by (simp only: exec_append option.case)
    from Some have "insert (dr_account_id q) (dom (s_account_locks s)) = dom (s_account_locks s)"
      by auto
    then have st: "servicer_of (shared ?w) = snd ?D"
      by (subst same) (simp add: servicer_of_def)
    have "(s_locks s)[l := False] = s_locks s"
      using l free by (rule list_update_free)
    then have id: "idle (shared ?w)"
      using assms by (simp add: idle_def)
    from run st id show ?thesis by (intro exI conjI) (assumption, simp, assumption+)
  qed
qed

section \<open>Deposits of one to a new account\<close>

text \<open>
  Claim C5. For every \<open>N\<close>, let \<open>N\<close> workers each serve a deposit of one to
  the same account, on a servicer on which no handler runs and whose store
  has the account with balance zero. Whatever the interleaving of their
  steps: when all of them have finished the stored balance is \<open>N\<close>; the
  interleaving can always be carried on until all of them have finished, so
  no worker waits for ever; and it has at most ten steps for each worker.
\<close>

theorem concurrent_deposits:
  assumes "idle s"
    and "s_redis_client s (account_key a) = Some \<lparr>f_account_type = Some ty, f_balance = Some 0\<rparr>"
    and "exec (spawn s (replicate N \<lparr>dr_account_id = a, dr_amount = 1\<rparr>)) sched = Some w"
  shows "(all_finished w \<longrightarrow>
            s_redis_client (shared w) (account_key a)
              = Some \<lparr>f_account_type = Some ty, f_balance = Some (real N)\<rparr>)
       \<and> (\<exists>sched' w'. exec w sched' = Some w' \<and> all_finished w'
            \<and> s_redis_client (shared w') (account_key a)
                = Some \<lparr>f_account_type = Some ty, f_balance = Some (real N)\<rparr>)
       \<and> length sched \<le> 10 * N"
proof -
  let ?qs = "replicate N \<lparr>dr_account_id = a, dr_amount = 1\<rparr>"
  have credit: "sum_list (map (credit a) ?qs) = real N"
    by (simp add: credit_def sum_list_replicate)
  have fin: "s_redis_client (shared w') (account_key a)
              = Some \<lparr>f_account_type = Some ty, f_balance = Some (real N)\<rparr>"
    if "exec (spawn s ?qs) sched' = Some w'" and "all_finished w'" for sched' w'
    using final_balance [OF assms(1,2) that] credit by simp
  from sound_exec [OF sound_spawn [OF assms(1,2)] assms(3)]
  have "locks_ok w" unfolding sound_def by simp
  from can_finish [OF this]
  obtain sched' w' where c: "exec w sched' = Some w'" "all_finished w'" by blast
  have app: "exec (spawn s ?qs) (sched @ sched') = Some w'"
    using assms(3) c(1) by (simp add: exec_append)
  from exec_work_left [OF assms(3)] have "length sched \<le> 10 * N"
    by (simp add: work_left_spawn)
  with fin [OF assms(3)] fin [OF app c(2)] c show ?thesis by blast
qed

theorem concurrent_deposits_witness:
  "\<exists>w. exec (spawn (init_shared [account_key ''A1'' \<mapsto>
                        \<lparr>f_account_type = Some ''savings'', f_balance = Some 0\<rparr>])
                 (replicate 2 \<lparr>dr_account_id = ''A1'', dr_amount = 1\<rparr>))
          [0, 1, 0, 0, 0, 0, 0, 1, 1, 1, 1, 1, 1, 1, 1, 0, 0, 0, 0] = Some w
      \<and> all_finished w
      \<and> s_redis_client (shared w) (account_key ''A1'')
          = Some \<lparr>f_account_type = Some ''savings'', f_balance = Some 2\<rparr>"
proof -
  let ?s = "init_shared [account_key ''A1'' \<mapsto>
                        \<lparr>f_account_type = Some ''savings'', f_balance = Some 0\<rparr>]"
  let ?sched = "[0, 1, 0, 0, 0, 0, 0, 1, 1, 1, 1, 1, 1, 1, 1, 0, 0, 0, 0] :: nat list"
  have 1: "idle ?s"
    by (simp add: idle_def init_shared_def)
  have 2: "s_redis_client ?s (account_key ''A1'')
             = Some \<lparr>f_account_type = Some ''savings'', f_balance = Some 0\<rparr>"
    by (simp add: init_shared_def)
  have "\<exists>w. exec (spawn ?s (replicate 2 \<lparr>dr_account_id = ''A1'', dr_amount = 1\<rparr>)) ?sched = Some w
            \<and> all_finished w"
    by (simp add: spawn_def init_shared_def step_def all_finished_def get_account_data_def
        hgetall_def hset_balance_def empty_hash_def account_key_def new_context_def Let_def
        numeral_2_eq_2)
  then obtain w where 3: "exec (spawn ?s (replicate 2 \<lparr>dr_account_id = ''A1'', dr_amount = 1\<rparr>)) ?sched
                           = Some w" and 4: "all_finished w"
    by blast
  from concurrent_deposits [OF 1 2 3] 3 4 show ?thesis by auto
qed


section \<open>A deposit of \<^verbatim>\<open>nan\<close>\<close>

text \<open>
  On finite amounts \<open>Deposit_float\<close> is \<open>Deposit\<close>: the same check, the same
  sum, the same write.
\<close>

lemma Deposit_float_invalid:
  "a \<le> 0 \<Longrightarrow>
     Deposit_float self \<lparr>fdr_account_id = i, fdr_amount = Finite a\<rparr> c =
       (Return FloatTransactionResponse0
          (set_details ''Transaction amount must be positive.''
             (set_code INVALID_ARGUMENT c)), self)"
  by (simp add: Deposit_float_def)

lemma Deposit_float_finite:
  assumes "0 < a"
    and "float_redis_client self (account_key i)
           = Some \<lparr>ff_account_type = Some t, ff_balance = Some (Finite b)\<rparr>"
  shows "Deposit_float self \<lparr>fdr_account_id = i, fdr_amount = Finite a\<rparr> c =
       (Return \<lparr>ft_account_id = i,
                ft_message = [Float_Lit ''Successfully deposited $'', Float_Fixed 2 (Finite a)],
                ft_balance = Finite (b + a)\<rparr> c,
        (float_get_account_lock self i)
          \<lparr>float_redis_client :=
             (float_redis_client self)(account_key i \<mapsto>
                \<lparr>ff_account_type = Some t, ff_balance = Some (Finite (b + a))\<rparr>)\<rparr>)"
  using assms
  by (simp add: Deposit_float_def float_get_account_data_def float_hgetall_def
      float_hset_balance_def float_empty_hash_def float_get_account_lock_def Let_def)

text \<open>
  Claim C9 says that a stored balance that is at least zero is still at least
  zero after one call of any operation with any arguments. A deposit of
  \<^verbatim>\<open>nan\<close> to an account with balance zero breaks it. The check
  \<^verbatim>\<open>request.amount <= 0\<close>, whose message says that the amount must be positive,
  is false for \<^verbatim>\<open>nan\<close>; the handler goes on, adds \<^verbatim>\<open>nan\<close> to the balance,
  stores the sum and returns with no failure code; the stored balance is
  \<^verbatim>\<open>nan\<close>, and \<^verbatim>\<open>0 <= nan\<close> is false.
\<close>

theorem Deposit_stores_nan:
  "float_le (Finite 0) (Finite 0)
   \<and> Deposit_float
         \<lparr>float_redis_client =
            [account_key ''A1'' \<mapsto> \<lparr>ff_account_type = Some ''savings'', ff_balance = Some (Finite 0)\<rparr>],
          float_account_locks = {}\<rparr>
         \<lparr>fdr_account_id = ''A1'', fdr_amount = NaN\<rparr> new_context
       = (Return \<lparr>ft_account_id = ''A1'',
                  ft_message = [Float_Lit ''Successfully deposited $'', Float_Fixed 2 NaN],
                  ft_balance = NaN\<rparr> new_context,
          \<lparr>float_redis_client =
             [account_key ''A1'' \<mapsto> \<lparr>ff_account_type = Some ''savings'', ff_balance = Some NaN\<rparr>],
           float_account_locks = {''A1''}\<rparr>)
   \<and> \<not> float_le (Finite 0) NaN"
  by (simp add: Deposit_float_def float_get_account_data_def float_hgetall_def
      float_hset_balance_def float_empty_hash_def float_get_account_lock_def Let_def)

end
